theory Spec2Isabelle
  imports Main "HOL-Library.Multiset"
begin

section \<open>Strings, numbers and the clock\<close>

text \<open>
  A JavaScript string is modelled as a \<^typ>\<open>string\<close>: one list element per
  code unit, so that \<open>length\<close> is \<open>.length\<close> and \<open>take
  30\<close> is \<open>.slice(0, 30)\<close>.  A reading of the clock
  (\<open>Date.now()\<close>, \<open>new Date()\<close>) is a natural number of
  milliseconds.  The readings are inputs of the model: every operation receives the values
  the clock returned to it.
\<close>

definition digit_char :: "nat \<Rightarrow> char" where
  "digit_char d = ''0123456789'' ! d"

text \<open>\<open>Number.prototype.toString\<close> on a non-negative integer: its decimal digits.\<close>

function toString :: "nat \<Rightarrow> string" where
  "toString n = (if n < 10 then [digit_char n] else toString (n div 10) @ [digit_char (n mod 10)])"
  by pat_completeness auto
termination
  by (relation "measure (\<lambda>n. n)") auto

declare toString.simps [simp del]

text \<open>
  Truthiness of a value of type \<open>string | null\<close>: \<open>null\<close> and the
  empty string are falsy. The result is the string when it is truthy.
\<close>

definition truthy :: "string option \<Rightarrow> string option" where
  "truthy v = (case v of None \<Rightarrow> None | Some c \<Rightarrow> if c = [] then None else Some c)"

text \<open>A parameter with a default value (\<open>lang: string = 'auto'\<close>).\<close>

definition with_default :: "string \<Rightarrow> string option \<Rightarrow> string" where
  "with_default d v = (case v of None \<Rightarrow> d | Some x \<Rightarrow> x)"

section \<open>Data model of the component \<open>App\<close>\<close>

text \<open>
  The component \<open>App\<close> is the second part of the source file \<open>Full
  Project/README.md\<close>, from its line 115 on; the line numbers given for
  \<open>App\<close> are those of that file.  A field is named after the field of the
  source, with the record it belongs to in front.  An optional field of the source
  (\<open>isLoading?\<close>, \<open>lang?\<close>) is an option.
\<close>

datatype sender = User | Bot

record message =
  msg_id :: string
  msg_text :: string
  msg_sender :: sender
  msg_timestamp :: nat
  msg_isLoading :: "bool option"
  msg_lang :: "string option"

record Chat =
  chat_id :: string
  chat_title :: string
  chat_lastMessage :: string
  chat_timestamp :: nat

record app_state =
  chats :: "Chat list"
  activeChatId :: "string option"
  messages :: "string \<rightharpoonup> message list"
  loadingChatId :: "string option"

definition initial_state :: app_state where
  "initial_state = \<lparr>chats = [], activeChatId = None, messages = Map.empty, loadingChatId = None\<rparr>"

text \<open>The response of the backend (\<open>ChatResponse\<close> of \<open>api.ts\<close>).\<close>

record ChatResponse =
  reply :: string
  resp_lang :: string

text \<open>A thrown value: an instance of \<open>Error\<close> with its message, or anything else.\<close>

datatype thrown = Error string | NonError

section \<open>The state updaters of \<open>App\<close>\<close>

text \<open>\<open>prev[chatId] || []\<close>: an array is truthy, so only a missing key gives \<open>[]\<close>.\<close>

definition messages_or_empty :: "(string \<rightharpoonup> message list) \<Rightarrow> string \<Rightarrow> message list" where
  "messages_or_empty prev chatId = (case prev chatId of None \<Rightarrow> [] | Some ms \<Rightarrow> ms)"

text \<open>The updater \<open>prev => ({...prev, [chatId]: [...(prev[chatId] || []), msg]})\<close>.\<close>

definition appendMessage ::
  "string \<Rightarrow> message \<Rightarrow> (string \<rightharpoonup> message list) \<Rightarrow> (string \<rightharpoonup> message list)" where
  "appendMessage chatId msg prev = prev(chatId \<mapsto> messages_or_empty prev chatId @ [msg])"

text \<open>
  The updater \<open>prev => ({...prev, [chatId]: (prev[chatId] || []).map(msg =>
  msg.id === messageId ? newMessage : msg)})\<close>.
\<close>

definition replaceMessage ::
  "string \<Rightarrow> string \<Rightarrow> message \<Rightarrow> (string \<rightharpoonup> message list) \<Rightarrow> (string \<rightharpoonup> message list)" where
  "replaceMessage chatId messageId newMessage prev =
     prev(chatId \<mapsto> map (\<lambda>msg. if msg_id msg = messageId then newMessage else msg)
                         (messages_or_empty prev chatId))"

text \<open>\<open>text.slice(0, 30) + (text.length > 30 ? '...' : '')\<close>\<close>

definition summary_title :: "string \<Rightarrow> string" where
  "summary_title txt = take 30 txt @ (if length txt > 30 then ''...'' else [])"

text \<open>The updater of the chat collection after the user message (lines 189-195).\<close>

definition updateChatSummary :: "string \<Rightarrow> string \<Rightarrow> nat \<Rightarrow> Chat list \<Rightarrow> Chat list" where
  "updateChatSummary chatId txt date prevChats =
     map (\<lambda>chat.
            if chat_id chat = chatId \<and> chat_title chat = ''New Chat''
            then chat\<lparr>chat_title := summary_title txt, chat_lastMessage := txt,
                      chat_timestamp := date\<rparr>
            else if chat_id chat = chatId
            then chat\<lparr>chat_lastMessage := txt, chat_timestamp := date\<rparr>
            else chat) prevChats"

text \<open>The updater of the chat collection after a reply (lines 236-240).\<close>

definition updateLastMessage :: "string \<Rightarrow> string \<Rightarrow> nat \<Rightarrow> Chat list \<Rightarrow> Chat list" where
  "updateLastMessage chatId txt date prevChats =
     map (\<lambda>chat.
            if chat_id chat = chatId
            then chat\<lparr>chat_lastMessage := txt, chat_timestamp := date\<rparr>
            else chat) prevChats"

section \<open>\<open>handleNewChat\<close> and \<open>handleSendMessage\<close>\<close>

definition newChat :: "nat \<Rightarrow> nat \<Rightarrow> Chat" where
  "newChat now date =
     \<lparr>chat_id = toString now, chat_title = ''New Chat'', chat_lastMessage = [],
      chat_timestamp = date\<rparr>"

definition handleNewChat :: "nat \<Rightarrow> nat \<Rightarrow> app_state \<Rightarrow> app_state" where
  "handleNewChat now date s =
     (let c = newChat now date
      in s\<lparr>chats := c # chats s, activeChatId := Some (chat_id c),
            messages := (messages s)(chat_id c \<mapsto> [])\<rparr>)"

text \<open>
  The clock readings of the synchronous part of one \<open>handleSendMessage\<close> call,
  in the order of the source: \<open>Date.now()\<close> and \<open>new Date()\<close> of
  the new chat (lines 154, 157, read only when a chat is created), of the user message
  (lines 164/172, 167/175), \<open>new Date()\<close> of the summary update (lines
  191/193), \<open>Date.now()\<close> and \<open>new Date()\<close> of the loading message
  (lines 198, 206).
\<close>

record send_clock =
  now_chat :: nat
  date_chat :: nat
  now_user :: nat
  date_user :: nat
  date_summary :: nat
  now_loading :: nat
  date_loading :: nat

definition userMessage :: "send_clock \<Rightarrow> string \<Rightarrow> message" where
  "userMessage clk txt =
     \<lparr>msg_id = toString (now_user clk), msg_text = txt, msg_sender = User,
      msg_timestamp = date_user clk, msg_isLoading = None, msg_lang = None\<rparr>"

definition loadingMessageId :: "send_clock \<Rightarrow> string" where
  "loadingMessageId clk = toString (now_loading clk + 1)"

definition loadingMessage :: "send_clock \<Rightarrow> message" where
  "loadingMessage clk =
     \<lparr>msg_id = loadingMessageId clk, msg_text = [], msg_sender = Bot,
      msg_timestamp = date_loading clk, msg_isLoading = Some True, msg_lang = None\<rparr>"

text \<open>
  What a call keeps in its closure across \<open>await\<close>: the target chat, the id of
  its loading message, and the arguments of the backend call.
\<close>

record pending =
  p_chatId :: string
  p_loadingMessageId :: string
  p_text :: string
  p_lang :: string

text \<open>
  Lines 149-186: the target chat.  The handler reads \<open>activeChatId\<close> (line 149) as the
  constant its render has captured (line 132): it is the argument \<open>active\<close>, which is the
  \<open>activeChatId\<close> of the current state only when the handler called is the one of the
  latest render.  The updates go through \<open>setChats\<close>, \<open>setActiveChatId\<close> and the functional
  form of \<open>setMessages\<close>, and apply to the current state \<open>s\<close>.  The result is \<open>chatId\<close> and
  the state after the updates of this part.
\<close>

definition resolveChat ::
  "string option \<Rightarrow> send_clock \<Rightarrow> string \<Rightarrow> app_state \<Rightarrow> string \<times> app_state" where
  "resolveChat active clk txt s =
     (case truthy active of
        None \<Rightarrow>
          (let c = newChat (now_chat clk) (date_chat clk); chatId = chat_id c
           in (chatId, s\<lparr>chats := c # chats s, activeChatId := Some chatId,
                          messages := (messages s)(chatId \<mapsto> [userMessage clk txt])\<rparr>))
      | Some chatId \<Rightarrow>
          (chatId, s\<lparr>messages := appendMessage chatId (userMessage clk txt) (messages s)\<rparr>))"

text \<open>Lines 149-211: everything \<open>handleSendMessage\<close> does before it awaits the backend.\<close>

definition handleSendMessage_begin ::
  "string option \<Rightarrow> send_clock \<Rightarrow> string \<Rightarrow> string option \<Rightarrow> app_state \<Rightarrow>
     pending \<times> app_state" where
  "handleSendMessage_begin active clk txt lang s =
     (let (chatId, s1) = resolveChat active clk txt s;
          s2 = s1\<lparr>chats := updateChatSummary chatId txt (date_summary clk) (chats s1)\<rparr>;
          s3 = (if chatId \<noteq> []
                then s2\<lparr>messages := appendMessage chatId (loadingMessage clk) (messages s2),
                        loadingChatId := Some chatId\<rparr>
                else s2)
      in (\<lparr>p_chatId = chatId, p_loadingMessageId = loadingMessageId clk, p_text = txt,
           p_lang = with_default ''auto'' lang\<rparr>, s3))"

text \<open>The two \<open>new Date()\<close> of the part after \<open>await\<close> (lines 227/253 and 238).\<close>

record resolve_clock =
  date_message :: nat
  date_chatUpdate :: nat

definition replyMessage :: "string \<Rightarrow> ChatResponse \<Rightarrow> nat \<Rightarrow> message" where
  "replyMessage mid response date =
     \<lparr>msg_id = mid, msg_text = reply response, msg_sender = Bot, msg_timestamp = date,
      msg_isLoading = None, msg_lang = Some (resp_lang response)\<rparr>"

text \<open>\<open>error instanceof Error ? error.message : 'Failed to get response from server'\<close>\<close>

definition errorMessage :: "thrown \<Rightarrow> string" where
  "errorMessage error =
     (case error of Error m \<Rightarrow> m | NonError \<Rightarrow> ''Failed to get response from server'')"

definition errorText :: "thrown \<Rightarrow> string" where
  "errorText error =
     ''Sorry, I encountered an error: '' @ errorMessage error
       @ ''. Please make sure the backend server is running.''"

definition failureMessage :: "string \<Rightarrow> thrown \<Rightarrow> nat \<Rightarrow> message" where
  "failureMessage mid error date =
     \<lparr>msg_id = mid, msg_text = errorText error, msg_sender = Bot, msg_timestamp = date,
      msg_isLoading = None, msg_lang = None\<rparr>"

text \<open>
  Lines 213-261: what the call does once the backend call has settled, with the reply
  (\<open>Inr\<close>) or with the value it threw (\<open>Inl\<close>).
\<close>

definition handleSendMessage_end ::
  "resolve_clock \<Rightarrow> pending \<Rightarrow> thrown + ChatResponse \<Rightarrow> app_state \<Rightarrow> app_state" where
  "handleSendMessage_end rc p outcome s =
     (let chatId = p_chatId p; mid = p_loadingMessageId p;
          s2 = (case outcome of
                  Inr response \<Rightarrow>
                    (let s1 = (if chatId \<noteq> []
                               then s\<lparr>messages := replaceMessage chatId mid
                                         (replyMessage mid response (date_message rc)) (messages s)\<rparr>
                               else s)
                     in s1\<lparr>chats := updateLastMessage chatId (reply response)
                                      (date_chatUpdate rc) (chats s1)\<rparr>)
                | Inl error \<Rightarrow>
                    (if chatId \<noteq> []
                     then s\<lparr>messages := replaceMessage chatId mid
                               (failureMessage mid error (date_message rc)) (messages s)\<rparr>
                     else s))
      in s2\<lparr>loadingChatId := None\<rparr>)"

section \<open>The interleaving of calls\<close>

text \<open>
  The handlers run to completion on the event loop; a \<open>handleSendMessage\<close> call is
  suspended only at its \<open>await\<close>.  The system state is the React state together with the
  calls that are suspended there.  An event is one handler run: a click on "New Chat", the
  choice of a chat of the sidebar, the synchronous part of a send, or the rest of the
  suspended call number \<open>i\<close> when its backend call settles, with the outcome of that call.
  A send comes with the \<open>activeChatId\<close> its handler has captured: the one of the current
  state when the handler is that of the latest render, an older one when the handler has
  been kept from an earlier render (as the callback of \<open>setTimeout\<close> in \<open>ChatArea\<close> keeps
  its \<open>onSendMessage\<close>).
\<close>

datatype event =
  NewChat nat nat
  | SelectChat string
  | Send "string option" send_clock string "string option"
  | Settle nat resolve_clock "thrown + ChatResponse"

type_synonym system = "app_state \<times> pending list"

fun step :: "event \<Rightarrow> system \<Rightarrow> system" where
  "step (NewChat now date) (s, ps) = (handleNewChat now date s, ps)"
| "step (SelectChat c) (s, ps) =
     (if c \<in> set (map chat_id (chats s)) then (s\<lparr>activeChatId := Some c\<rparr>, ps) else (s, ps))"
| "step (Send active clk txt lang) (s, ps) =
     (case handleSendMessage_begin active clk txt lang s of (p, s') \<Rightarrow> (s', ps @ [p]))"
| "step (Settle i rc outcome) (s, ps) =
     (if i < length ps
      then (handleSendMessage_end rc (ps ! i) outcome s, take i ps @ drop (Suc i) ps)
      else (s, ps))"

definition run :: "event list \<Rightarrow> system \<Rightarrow> system" where
  "run evs sys = fold step evs sys"

definition initial_system :: system where
  "initial_system = (initial_state, [])"

text \<open>The loading messages of a chat, and the suspended calls that target a chat.\<close>

definition loadingMessages :: "app_state \<Rightarrow> string \<Rightarrow> message list" where
  "loadingMessages s chatId =
     filter (\<lambda>m. msg_isLoading m = Some True) (messages_or_empty (messages s) chatId)"

definition pendingOn :: "pending list \<Rightarrow> string \<Rightarrow> pending list" where
  "pendingOn ps chatId = filter (\<lambda>p. p_chatId p = chatId) ps"

section \<open>The backend client of \<open>api.ts\<close>\<close>

record ChatRequest =
  query :: string
  req_lang :: string

record http_request =
  url :: string
  http_method :: string
  content_type :: string
  body :: ChatRequest

text \<open>
  A response of \<open>fetch\<close>: its status and what \<open>response.json()\<close>
  gives, the parsed body or the value it throws.  \<open>response.ok\<close> is, by the
  Fetch standard, a status from 200 to 299.
\<close>

record http_response =
  status :: nat
  json :: "thrown + ChatResponse"

definition ok :: "http_response \<Rightarrow> bool" where
  "ok response = (200 \<le> status response \<and> status response \<le> 299)"

datatype fetch_result = Rejected thrown | Fulfilled http_response

text \<open>
  The network: what it answers to the first, second, ... request, and the requests sent so
  far.  Each \<open>fetch\<close> sends one request and takes the next answer.
\<close>

record network =
  answers :: "nat \<Rightarrow> fetch_result"
  sent :: "http_request list"

definition fetch :: "http_request \<Rightarrow> network \<Rightarrow> fetch_result \<times> network" where
  "fetch req net = (answers net (length (sent net)), net\<lparr>sent := sent net @ [req]\<rparr>)"

definition chatRequest :: "string \<Rightarrow> string \<Rightarrow> string option \<Rightarrow> http_request" where
  "chatRequest base q lang =
     \<lparr>url = base @ ''/chat'', http_method = ''POST'', content_type = ''application/json'',
      body = \<lparr>query = q, req_lang = with_default ''auto'' lang\<rparr>\<rparr>"

text \<open>The body of the \<open>try\<close> block (lines 20-36): the reply, or the value thrown.\<close>

definition attempt :: "fetch_result \<Rightarrow> thrown + ChatResponse" where
  "attempt r =
     (case r of
        Rejected e \<Rightarrow> Inl e
      | Fulfilled response \<Rightarrow>
          if \<not> ok response
          then Inl (Error (''HTTP error! status: '' @ toString (status response)))
          else json response)"

text \<open>The \<open>catch\<close> block (lines 37-44): the error thrown to the caller.\<close>

definition normalize :: "thrown \<Rightarrow> thrown" where
  "normalize error =
     Error (case error of
              Error m \<Rightarrow> ''Failed to get response: '' @ m
            | NonError \<Rightarrow>
                ''Failed to get response from server. Please check if the backend is running.'')"

text \<open>\<open>chatAPI.sendMessage\<close>, with \<open>API_BASE_URL\<close> as a parameter.\<close>

definition sendMessage ::
  "string \<Rightarrow> string \<Rightarrow> string option \<Rightarrow> network \<Rightarrow> (thrown + ChatResponse) \<times> network" where
  "sendMessage base q lang net =
     (case fetch (chatRequest base q lang) net of
        (r, net') \<Rightarrow>
          (case attempt r of
             Inr data \<Rightarrow> (Inr data, net')
           | Inl error \<Rightarrow> (Inl (normalize error), net')))"

section \<open>A whole call\<close>


section \<open>The end of a recognition session (\<open>ChatArea.tsx\<close>)\<close>

text \<open>The white space \<open>String.prototype.trim\<close> removes, among the code units modelled.\<close>

definition isWhiteSpace :: "char \<Rightarrow> bool" where
  "isWhiteSpace c =
     (c \<in> set [CHR 0x09, CHR 0x0A, CHR 0x0B, CHR 0x0C, CHR 0x0D, CHR '' '', CHR 0xA0])"

definition trim :: "string \<Rightarrow> string" where
  "trim s = rev (dropWhile isWhiteSpace (rev (dropWhile isWhiteSpace s)))"

definition langMap :: "(string \<times> string) list" where
  "langMap = [(''en-US'', ''en''), (''hi-IN'', ''hi''), (''te-IN'', ''te'')]"

text \<open>
  \<open>langMap[selectedLanguage] || 'en'\<close>.  \<open>langMap\<close> is an object literal, so the lookup
  finds its three own properties and, for any other name, the member of that name that the
  literal inherits from \<open>Object.prototype\<close> (by ECMAScript with its Annex B: the names
  below).  Such a member is a function or an object, hence truthy, and is the value of the
  expression; for every other name the lookup gives \<open>undefined\<close> and the value is \<open>'en'\<close>.
  The value is a language code or the inherited member of a name.
\<close>

datatype lang_value = Code string | Member string

definition objectPrototype :: "string list" where
  "objectPrototype =
     [''constructor'', ''__defineGetter__'', ''__defineSetter__'', ''hasOwnProperty'',
      ''__lookupGetter__'', ''__lookupSetter__'', ''isPrototypeOf'', ''propertyIsEnumerable'',
      ''toString'', ''valueOf'', ''__proto__'', ''toLocaleString'']"

definition backendLang :: "string \<Rightarrow> lang_value" where
  "backendLang tag =
     (case map_of langMap tag of
        Some l \<Rightarrow> Code (if l = [] then ''en'' else l)
      | None \<Rightarrow> if tag \<in> set objectPrototype then Member tag else Code ''en'')"

record speech_state =
  input :: string
  isListening :: bool
  selectedLanguage :: string
  finalTranscriptRef :: string

text \<open>
  \<open>recognition.onresult\<close> (lines 101-120) on the results from
  \<open>event.resultIndex\<close> on, each with the transcript of its first alternative
  and its \<open>isFinal\<close>.
\<close>

definition onresult :: "(string \<times> bool) list \<Rightarrow> speech_state \<Rightarrow> speech_state" where
  "onresult results st =
     (let finalTranscript = concat (map (\<lambda>(t, final). if final then t @ '' '' else []) results);
          interimTranscript = concat (map (\<lambda>(t, final). if final then [] else t) results);
          buffer = (if finalTranscript \<noteq> [] then finalTranscriptRef st @ finalTranscript
                    else finalTranscriptRef st)
      in st\<lparr>finalTranscriptRef := buffer, input := trim (buffer @ interimTranscript)\<rparr>)"

text \<open>
  \<open>recognition.onend\<close> (lines 144-165).  The result is the state and, when a
  send is scheduled, the arguments the callback of \<open>setTimeout\<close> keeps: the
  transcript to send and the language of the backend.
\<close>

definition onend :: "speech_state \<Rightarrow> speech_state \<times> (string \<times> lang_value) option" where
  "onend st =
     (let st1 = st\<lparr>isListening := False\<rparr>;
          transcriptToSend = trim (finalTranscriptRef st)
      in if transcriptToSend \<noteq> []
         then (st1, Some (transcriptToSend, backendLang (selectedLanguage st)))
         else (st1\<lparr>finalTranscriptRef := []\<rparr>, None))"

text \<open>
  The callback of \<open>setTimeout\<close> (lines 157-161): the call of
  \<open>onSendMessage\<close> it makes, as the arguments of
  \<open>handleSendMessage\<close>, and the state after it.
\<close>

definition onend_timeout ::
  "string \<times> lang_value \<Rightarrow> speech_state \<Rightarrow> speech_state \<times> (string \<times> lang_value)" where
  "onend_timeout job st =
     (case job of (transcriptToSend, lang) \<Rightarrow>
        (st\<lparr>input := [], finalTranscriptRef := []\<rparr>, (transcriptToSend, lang)))"

text \<open>The end of a session with its timeout: the final state and the sends issued.\<close>

definition sessionEnd :: "speech_state \<Rightarrow> speech_state \<times> (string \<times> lang_value) list" where
  "sessionEnd st =
     (case onend st of
        (st1, None) \<Rightarrow> (st1, [])
      | (st1, Some job) \<Rightarrow> (case onend_timeout job st1 of (st2, call) \<Rightarrow> (st2, [call])))"

section \<open>Notions used to state the properties\<close>

text \<open>
  The chat a send targets (the variable \<open>chatId\<close> after line 186), and the
  messages that chat holds when the send begins: none for the chat the send creates.
\<close>

definition targetChat :: "send_clock \<Rightarrow> string option \<Rightarrow> string" where
  "targetChat clk active =
     (case truthy active of None \<Rightarrow> toString (now_chat clk) | Some chatId \<Rightarrow> chatId)"

definition previousMessages :: "string option \<Rightarrow> app_state \<Rightarrow> message list" where
  "previousMessages active s =
     (case truthy active of None \<Rightarrow> []
      | Some chatId \<Rightarrow> messages_or_empty (messages s) chatId)"

text \<open>A clock that returns \<open>t\<close> at every reading of one send.\<close>

definition clock_at :: "nat \<Rightarrow> send_clock" where
  "clock_at t =
     \<lparr>now_chat = t, date_chat = t, now_user = t, date_user = t, date_summary = t,
      now_loading = t, date_loading = t\<rparr>"

text \<open>
  The message sequence of a chat (\<open>messages[chatId] || []\<close>, as
  \<open>App\<close> passes it to \<open>ChatArea\<close>), the chat collection a send
  works on, and the message that takes the place of the loading message when the backend
  call has settled.
\<close>

definition chatMessages :: "app_state \<Rightarrow> string \<Rightarrow> message list" where
  "chatMessages s chatId = messages_or_empty (messages s) chatId"

definition chatsWithTarget :: "send_clock \<Rightarrow> string option \<Rightarrow> app_state \<Rightarrow> Chat list" where
  "chatsWithTarget clk active s =
     (case truthy active of
        None \<Rightarrow> newChat (now_chat clk) (date_chat clk) # chats s
      | Some chatId \<Rightarrow> chats s)"

definition resolvedMessage :: "resolve_clock \<Rightarrow> pending \<Rightarrow> thrown + ChatResponse \<Rightarrow> message" where
  "resolvedMessage rc p outcome =
     (case outcome of
        Inr response \<Rightarrow> replyMessage (p_loadingMessageId p) response (date_message rc)
      | Inl error \<Rightarrow> failureMessage (p_loadingMessageId p) error (date_message rc))"

text \<open>
  The ids of the loading messages of a chat and the loading-message ids of the suspended
  calls on it, with multiplicity; in a well-formed system the former are among the latter.
\<close>

definition loadingIds :: "app_state \<Rightarrow> string \<Rightarrow> string multiset" where
  "loadingIds s chatId = image_mset msg_id (mset (loadingMessages s chatId))"

definition pendingIds :: "pending list \<Rightarrow> string \<Rightarrow> string multiset" where
  "pendingIds ps chatId = image_mset p_loadingMessageId (mset (pendingOn ps chatId))"

definition owned :: "system \<Rightarrow> bool" where
  "owned sys =
     ((\<forall>p \<in> set (snd sys). p_chatId p \<noteq> [])
      \<and> (\<forall>chatId. loadingIds (fst sys) chatId \<subseteq># pendingIds (snd sys) chatId))"

text \<open>Example inputs.\<close>

definition exampleReply :: "string \<Rightarrow> thrown + ChatResponse" where
  "exampleReply r = Inr \<lparr>reply = r, resp_lang = ''en''\<rparr>"

definition resolve_at :: "nat \<Rightarrow> resolve_clock" where
  "resolve_at t = \<lparr>date_message = t, date_chatUpdate = t\<rparr>"

definition exampleChat :: "string \<Rightarrow> Chat" where
  "exampleChat t = \<lparr>chat_id = ''7'', chat_title = t, chat_lastMessage = [], chat_timestamp = 7\<rparr>"

text \<open>A network that gives the same answer to every request, and two kinds of answers.\<close>

definition answering :: "fetch_result \<Rightarrow> network" where
  "answering r = \<lparr>answers = (\<lambda>n. r), sent = []\<rparr>"

definition jsonBody :: "nat \<Rightarrow> thrown + ChatResponse \<Rightarrow> fetch_result" where
  "jsonBody n j = Fulfilled \<lparr>status = n, json = j\<rparr>"

definition httpStatus :: "nat \<Rightarrow> fetch_result" where
  "httpStatus n = jsonBody n (Inl (Error ''Unexpected end of JSON input''))"

text \<open>The speech state while a session is open, with the transcript accumulated so far.\<close>

definition listening :: "string \<Rightarrow> string \<Rightarrow> speech_state" where
  "listening tag buffer =
     \<lparr>input = trim buffer, isListening = True, selectedLanguage = tag,
      finalTranscriptRef = buffer\<rparr>"

text \<open>
  The ids a send draws from the clock are new when no message of its target chat and no
  suspended send on that chat carries its user-message id or its loading-message id, the two
  differ, and the chat it creates, if it creates one, has an id that is no key of the
  conversation map; the id of a chat that "New Chat" creates is new when it is no key.  A run
  is fresh when every id is new at the moment it is drawn.
\<close>

definition usedIds :: "system \<Rightarrow> string \<Rightarrow> string list" where
  "usedIds sys chatId =
     map msg_id (chatMessages (fst sys) chatId)
       @ map p_loadingMessageId (pendingOn (snd sys) chatId)"

fun freshIds :: "event \<Rightarrow> system \<Rightarrow> bool" where
  "freshIds (NewChat now date) sys = (messages (fst sys) (toString now) = None)"
| "freshIds (SelectChat c) sys = True"
| "freshIds (Send active clk txt lang) sys =
     ((truthy active = None \<longrightarrow> messages (fst sys) (toString (now_chat clk)) = None)
      \<and> toString (now_user clk) \<notin> set (usedIds sys (targetChat clk active))
      \<and> loadingMessageId clk \<notin> set (usedIds sys (targetChat clk active))
      \<and> toString (now_user clk) \<noteq> loadingMessageId clk)"
| "freshIds (Settle i rc outcome) sys = True"

fun freshRun :: "event list \<Rightarrow> system \<Rightarrow> bool" where
  "freshRun [] sys = True"
| "freshRun (ev # evs) sys = (freshIds ev sys \<and> freshRun evs (step ev sys))"

text \<open>
  In a consistent system the ids of the messages of a chat are distinct, and the loading
  messages of a chat are those of the suspended sends on it.
\<close>

definition consistent :: "system \<Rightarrow> bool" where
  "consistent sys =
     ((\<forall>p \<in> set (snd sys). p_chatId p \<noteq> [])
      \<and> (\<forall>chatId. distinct (map msg_id (chatMessages (fst sys) chatId)))
      \<and> (\<forall>chatId. loadingIds (fst sys) chatId = pendingIds (snd sys) chatId))"

text \<open>
  The place of a send in a chat: its user message, followed by its loading message or by
  the message with the same id that has replaced it.
\<close>

definition holdsPlace :: "message \<Rightarrow> message \<Rightarrow> bool" where
  "holdsPlace L x = (msg_id x = msg_id L \<and> (x = L \<or> msg_isLoading x \<noteq> Some True))"

definition inChat :: "message \<Rightarrow> message \<Rightarrow> message list \<Rightarrow> bool" where
  "inChat U L ms = (\<exists>pre x post. ms = pre @ [U, x] @ post \<and> holdsPlace L x)"

text \<open>The pair of a user message and the message that has answered it, in a chat.\<close>

definition answered :: "message \<Rightarrow> message \<Rightarrow> message list \<Rightarrow> bool" where
  "answered U R ms = (\<exists>pre post. ms = pre @ [U, R] @ post)"

text \<open>
  Runs of sends and settled calls only; a send through the handler of the latest render,
  which has captured the \<open>activeChatId\<close> of the current state; the message ids and the text
  of a send; and the title of a chat after one more summary update.
\<close>

fun sendOrSettle :: "event \<Rightarrow> bool" where
  "sendOrSettle (Send active clk txt lang) = True"
| "sendOrSettle (Settle i rc outcome) = True"
| "sendOrSettle (NewChat now date) = False"
| "sendOrSettle (SelectChat c) = False"

fun latestHandler :: "event \<Rightarrow> system \<Rightarrow> bool" where
  "latestHandler (Send active clk txt lang) sys = (active = activeChatId (fst sys))"
| "latestHandler (Settle i rc outcome) sys = True"
| "latestHandler (NewChat now date) sys = True"
| "latestHandler (SelectChat c) sys = True"

fun latestHandlers :: "event list \<Rightarrow> system \<Rightarrow> bool" where
  "latestHandlers [] sys = True"
| "latestHandlers (ev # evs) sys = (latestHandler ev sys \<and> latestHandlers evs (step ev sys))"

fun callIds :: "event \<Rightarrow> string list" where
  "callIds (Send active clk txt lang) = [toString (now_user clk), toString (now_loading clk + 1)]"
| "callIds (Settle i rc outcome) = []"
| "callIds (NewChat now date) = []"
| "callIds (SelectChat c) = []"

fun callTexts :: "event \<Rightarrow> string list" where
  "callTexts (Send active clk txt lang) = [txt]"
| "callTexts (Settle i rc outcome) = []"
| "callTexts (NewChat now date) = []"
| "callTexts (SelectChat c) = []"

definition retitle :: "string \<Rightarrow> string \<Rightarrow> string" where
  "retitle title txt =
     (if title = ''New Chat'' then take 30 txt @ (if length txt > 30 then ''...'' else [])
      else title)"

section \<open>Decimal rendering\<close>

lemma toString_nonempty: "toString n \<noteq> []"
  by (subst toString.simps) simp

lemma digit_char_code: "d < 10 \<Longrightarrow> (of_char (digit_char d) :: nat) = 48 + d"
proof -
  assume "d < 10"
  then have "d = 0 \<or> d = 1 \<or> d = 2 \<or> d = 3 \<or> d = 4 \<or> d = 5 \<or> d = 6 \<or> d = 7 \<or> d = 8 \<or> d = 9"
    by arith
  then show ?thesis by (elim disjE) (simp_all add: digit_char_def)
qed

lemma digit_char_inj: "a < 10 \<Longrightarrow> b < 10 \<Longrightarrow> digit_char a = digit_char b \<Longrightarrow> a = b"
proof -
  assume a: "a < 10" and b: "b < 10" and e: "digit_char a = digit_char b"
  from e have "(of_char (digit_char a) :: nat) = of_char (digit_char b)" by simp
  with a b show "a = b" by (simp add: digit_char_code)
qed

text \<open>Distinct numbers have distinct renderings: the last digits or the rest differ.\<close>

lemma toString_inj: "toString n = toString m \<Longrightarrow> n = m"
proof (induction n arbitrary: m rule: toString.induct)
  case (1 n)
  show ?case
  proof (cases "n < 10")
    case True
    show ?thesis
    proof (cases "m < 10")
      case mT: True
      with True "1.prems" show ?thesis
        by (simp add: toString.simps[of n] toString.simps[of m] digit_char_inj)
    next
      case mF: False
      with True "1.prems" toString_nonempty[of "m div 10"] show ?thesis
        by (simp add: toString.simps[of n] toString.simps[of m])
    qed
  next
    case False
    show ?thesis
    proof (cases "m < 10")
      case mT: True
      with False "1.prems" toString_nonempty[of "n div 10"] show ?thesis
        by (simp add: toString.simps[of n] toString.simps[of m])
    next
      case mF: False
      with False "1.prems" have e: "toString (n div 10) = toString (m div 10)"
        and d: "digit_char (n mod 10) = digit_char (m mod 10)"
        by (simp_all add: toString.simps[of n] toString.simps[of m])
      from "1.IH"[OF False e] have "n div 10 = m div 10" .
      moreover from d have "n mod 10 = m mod 10" by (simp add: digit_char_inj)
      ultimately show ?thesis by (metis div_mult_mod_eq)
    qed
  qed
qed

section \<open>The synchronous part of a send\<close>

lemma truthy_Some: "truthy v = Some c \<Longrightarrow> v = Some c \<and> c \<noteq> []"
  by (auto simp: truthy_def split: option.splits if_splits)

lemma targetChat_nonempty: "targetChat clk a \<noteq> []"
  by (auto simp: targetChat_def toString_nonempty split: option.splits dest: truthy_Some)

lemma resolveChat_result:
  "resolveChat a clk txt s = (chatId, s1) \<Longrightarrow>
     chatId = targetChat clk a \<and>
     s1 = s\<lparr>chats := chatsWithTarget clk a s,
            activeChatId := (if truthy a = None then Some (targetChat clk a) else activeChatId s),
            messages := (messages s)(targetChat clk a \<mapsto>
                          previousMessages a s @ [userMessage clk txt])\<rparr>"
  by (auto simp: resolveChat_def newChat_def Let_def previousMessages_def targetChat_def
      chatsWithTarget_def appendMessage_def split: option.splits)

lemma begin_pending:
  "handleSendMessage_begin a clk txt lang s = (p, s') \<Longrightarrow>
     p = \<lparr>p_chatId = targetChat clk a, p_loadingMessageId = loadingMessageId clk, p_text = txt,
          p_lang = with_default ''auto'' lang\<rparr>"
  by (auto simp: handleSendMessage_begin_def Let_def split: prod.splits
      dest!: resolveChat_result)

lemma begin_messages:
  "handleSendMessage_begin a clk txt lang s = (p, s') \<Longrightarrow>
     messages s' =
       (messages s)(targetChat clk a \<mapsto>
          previousMessages a s @ [userMessage clk txt, loadingMessage clk])"
  using targetChat_nonempty[of clk a]
  by (auto simp: handleSendMessage_begin_def Let_def appendMessage_def messages_or_empty_def
      split: prod.splits dest!: resolveChat_result)

lemma begin_chats:
  "handleSendMessage_begin a clk txt lang s = (p, s') \<Longrightarrow>
     chats s' = updateChatSummary (targetChat clk a) txt (date_summary clk) (chatsWithTarget clk a s)"
  by (auto simp: handleSendMessage_begin_def Let_def split: prod.splits if_splits
      dest!: resolveChat_result)

lemma begin_active:
  "handleSendMessage_begin a clk txt lang s = (p, s') \<Longrightarrow>
     activeChatId s' = (if truthy a = None then Some (targetChat clk a) else activeChatId s)"
  by (auto simp: handleSendMessage_begin_def Let_def split: prod.splits if_splits
      dest!: resolveChat_result)

lemmas begin_eval = handleSendMessage_begin_def resolveChat_def truthy_def initial_state_def
  newChat_def clock_at_def toString.simps digit_char_def previousMessages_def targetChat_def
  updateChatSummary_def appendMessage_def messages_or_empty_def loadingMessageId_def
  loadingMessage_def userMessage_def summary_title_def with_default_def Let_def

section \<open>The part of a send after the backend call\<close>

lemma messages_or_empty_upd:
  "messages_or_empty (m(k \<mapsto> v)) k' = (if k' = k then v else messages_or_empty m k')"
  by (simp add: messages_or_empty_def)

lemma end_messages:
  "messages (handleSendMessage_end rc p outcome s) =
     (if p_chatId p = [] then messages s
      else replaceMessage (p_chatId p) (p_loadingMessageId p) (resolvedMessage rc p outcome)
             (messages s))"
  by (simp add: handleSendMessage_end_def resolvedMessage_def Let_def split: sum.splits)



lemma map_replace_fresh:
  "a \<notin> set (map f xs) \<Longrightarrow> map (\<lambda>m. if f m = a then r else m) xs = xs"
  by (induction xs) auto

lemmas end_eval = handleSendMessage_end_def replaceMessage_def replyMessage_def
  failureMessage_def errorText_def errorMessage_def updateLastMessage_def resolvedMessage_def
  chatMessages_def exampleReply_def resolve_at_def

lemmas run_eval = run_def initial_system_def

section \<open>The loading message (C9)\<close>

text \<open>
  C9.  Every \<open>handleSendMessage\<close> call appends, after its user message, a
  loading message of the bot with \<open>isLoading = true\<close> and an empty text; when
  the clock does not go back between the reading for the user message and the reading for
  the loading message, the two ids differ.
\<close>

theorem loading_placeholder:
  assumes "now_user clk \<le> now_loading clk"
    and "handleSendMessage_begin a clk txt lang s = (p, s')"
  shows "messages s' (p_chatId p) =
           Some (previousMessages a s @ [userMessage clk txt, loadingMessage clk])
         \<and> msg_isLoading (loadingMessage clk) = Some True
         \<and> msg_text (loadingMessage clk) = []
         \<and> msg_sender (loadingMessage clk) = Bot
         \<and> msg_id (loadingMessage clk) = p_loadingMessageId p
         \<and> msg_id (loadingMessage clk) \<noteq> msg_id (userMessage clk txt)"
proof -
  have "now_loading clk + 1 \<noteq> now_user clk" using assms(1) by simp
  then have "toString (now_loading clk + 1) \<noteq> toString (now_user clk)"
    using toString_inj by blast
  then show ?thesis
    using begin_messages[OF assms(2)] begin_pending[OF assms(2)]
    by (simp add: loadingMessage_def userMessage_def loadingMessageId_def)
qed

theorem loading_placeholder_witness:
  "now_user (clock_at 5) \<le> now_loading (clock_at 5)
   \<and> messages (snd (handleSendMessage_begin None (clock_at 5) ''Hello'' None initial_state)) ''5'' =
       Some [userMessage (clock_at 5) ''Hello'', loadingMessage (clock_at 5)]
   \<and> msg_id (userMessage (clock_at 5) ''Hello'') = ''5''
   \<and> msg_id (loadingMessage (clock_at 5)) = ''6''"
  using loading_placeholder[of "clock_at 5" None "''Hello''" None initial_state
      "fst (handleSendMessage_begin None (clock_at 5) ''Hello'' None initial_state)"
      "snd (handleSendMessage_begin None (clock_at 5) ''Hello'' None initial_state)"]
  by (simp add: begin_eval)

section \<open>Resolution in place (C10)\<close>

text \<open>
  C10.  The part of a send after the backend call, with a reply or with an error, keeps
  the length of the chat's message sequence, leaves every message with another id than
  the loading message's as and where it is, keeps the sequence of ids, and leaves the
  other chats alone.
\<close>

theorem resolution_in_place:
  "length (chatMessages (handleSendMessage_end rc p outcome s) (p_chatId p)) =
     length (chatMessages s (p_chatId p))
   \<and> (\<forall>i < length (chatMessages s (p_chatId p)).
         msg_id (chatMessages s (p_chatId p) ! i) \<noteq> p_loadingMessageId p \<longrightarrow>
         chatMessages (handleSendMessage_end rc p outcome s) (p_chatId p) ! i =
           chatMessages s (p_chatId p) ! i)
   \<and> map msg_id (chatMessages (handleSendMessage_end rc p outcome s) (p_chatId p)) =
       map msg_id (chatMessages s (p_chatId p))
   \<and> (\<forall>k. k \<noteq> p_chatId p \<longrightarrow>
         messages (handleSendMessage_end rc p outcome s) k = messages s k)"
  by (auto simp: end_messages replaceMessage_def chatMessages_def messages_or_empty_def
      resolvedMessage_def replyMessage_def failureMessage_def
      split: sum.splits option.splits intro!: nth_equalityI)

theorem resolution_in_place_witness:
  "chatMessages (snd (handleSendMessage_begin None (clock_at 5) ''Hello'' None initial_state)) ''5'' ! 0 =
     userMessage (clock_at 5) ''Hello''
   \<and> chatMessages (handleSendMessage_end (resolve_at 8)
        (fst (handleSendMessage_begin None (clock_at 5) ''Hello'' None initial_state))
        (Inl (Error ''offline''))
        (snd (handleSendMessage_begin None (clock_at 5) ''Hello'' None initial_state))) ''5'' ! 0 =
      userMessage (clock_at 5) ''Hello''
   \<and> messages (handleSendMessage_end (resolve_at 8)
        (fst (handleSendMessage_begin None (clock_at 5) ''Hello'' None initial_state))
        (Inl (Error ''offline''))
        (snd (handleSendMessage_begin None (clock_at 5) ''Hello'' None initial_state))) ''4'' = None"
  using resolution_in_place[of "resolve_at 8"
      "fst (handleSendMessage_begin None (clock_at 5) ''Hello'' None initial_state)"
      "Inl (Error ''offline'')"
      "snd (handleSendMessage_begin None (clock_at 5) ''Hello'' None initial_state)"]
  by (simp add: begin_eval end_eval)

section \<open>Loading messages and suspended calls (C4)\<close>

text \<open>
  Nothing keeps a second send from being issued while the first is suspended: after two
  sends in a row the chat holds two loading messages.
\<close>

theorem one_loading_counterexample:
  "length (loadingMessages (fst (run
      [Send None (clock_at 5) ''a'' None, Send (Some ''5'') (clock_at 6) ''b'' None]
      initial_system)) ''5'') = 2"
  by (simp add: run_eval begin_eval loadingMessages_def)

text \<open>
  Every loading message of a chat belongs to a suspended call on that chat: the ids of the
  loading messages are, with multiplicity, among the loading-message ids of the suspended
  calls.  Every handler keeps this.
\<close>

lemma owned_initial: "owned initial_system"
  by (simp add: owned_def initial_system_def initial_state_def loadingIds_def
      loadingMessages_def messages_or_empty_def)

lemma owned_NewChat: "owned (s, ps) \<Longrightarrow> owned (step (NewChat now date) (s, ps))"
  by (simp add: owned_def handleNewChat_def Let_def loadingIds_def loadingMessages_def
      messages_or_empty_def)

lemma owned_SelectChat: "owned (s, ps) \<Longrightarrow> owned (step (SelectChat c) (s, ps))"
  by (simp add: owned_def loadingIds_def loadingMessages_def)

lemma loading_previous:
  "image_mset msg_id (mset (filter (\<lambda>m. msg_isLoading m = Some True) (previousMessages a s)))
     \<subseteq># loadingIds s (targetChat clk a)"
  by (simp add: previousMessages_def targetChat_def loadingIds_def loadingMessages_def
      split: option.splits)

lemma owned_Send:
  assumes "owned (s, ps)"
  shows "owned (step (Send a clk txt lang) (s, ps))"
proof -
  obtain p s' where b: "handleSendMessage_begin a clk txt lang s = (p, s')"
    by (cases "handleSendMessage_begin a clk txt lang s")
  have p: "p_chatId p = targetChat clk a" "p_loadingMessageId p = loadingMessageId clk"
    using begin_pending[OF b] by simp_all
  have m: "messages s' = (messages s)(targetChat clk a \<mapsto>
          previousMessages a s @ [userMessage clk txt, loadingMessage clk])"
    by (rule begin_messages[OF b])
  have "loadingIds s' k \<subseteq># pendingIds (ps @ [p]) k" for k
  proof (cases "k = targetChat clk a")
    case True
    have "loadingIds s' k =
        add_mset (loadingMessageId clk)
          (image_mset msg_id (mset (filter (\<lambda>m. msg_isLoading m = Some True) (previousMessages a s))))"
      using True m
      by (simp add: loadingIds_def loadingMessages_def messages_or_empty_def userMessage_def
          loadingMessage_def)
    moreover have "pendingIds (ps @ [p]) k = add_mset (loadingMessageId clk) (pendingIds ps k)"
      using True p by (simp add: pendingIds_def pendingOn_def)
    moreover have "image_mset msg_id (mset (filter (\<lambda>m. msg_isLoading m = Some True) (previousMessages a s)))
        \<subseteq># pendingIds ps k"
      using loading_previous[of a s clk] assms True
      by (auto simp: owned_def intro: subset_mset.order_trans)
    ultimately show ?thesis by simp
  next
    case False
    then have "loadingIds s' k = loadingIds s k"
      using m by (simp add: loadingIds_def loadingMessages_def messages_or_empty_def)
    moreover have "pendingIds (ps @ [p]) k = pendingIds ps k"
      using False p by (simp add: pendingIds_def pendingOn_def)
    ultimately show ?thesis using assms by (simp add: owned_def)
  qed
  moreover have "\<forall>q \<in> set (ps @ [p]). p_chatId q \<noteq> []"
    using assms p targetChat_nonempty by (auto simp: owned_def)
  ultimately show ?thesis using b by (simp add: owned_def)
qed

lemma filter_subset_remove:
  assumes "A \<subseteq># add_mset a B"
  shows "filter_mset (\<lambda>x. x \<noteq> a) A \<subseteq># B"
proof (rule mset_subset_eqI)
  fix x
  show "count (filter_mset (\<lambda>x. x \<noteq> a) A) x \<le> count B x"
  proof (cases "x = a")
    case True
    then show ?thesis by simp
  next
    case False
    have "count A x \<le> count (add_mset a B) x" using assms by (rule mset_subset_eq_count)
    with False show ?thesis by simp
  qed
qed

lemma loading_replaced:
  "msg_isLoading r \<noteq> Some True \<Longrightarrow>
   image_mset msg_id (filter_mset (\<lambda>m. msg_isLoading m = Some True)
       (mset (map (\<lambda>m. if msg_id m = mid then r else m) ms))) =
   filter_mset (\<lambda>x. x \<noteq> mid)
     (image_mset msg_id (filter_mset (\<lambda>m. msg_isLoading m = Some True) (mset ms)))"
  by (induction ms) auto

lemma resolved_not_loading: "msg_isLoading (resolvedMessage rc p outcome) \<noteq> Some True"
  by (simp add: resolvedMessage_def replyMessage_def failureMessage_def split: sum.splits)

lemma owned_Settle:
  assumes "owned (s, ps)"
  shows "owned (step (Settle i rc outcome) (s, ps))"
proof (cases "i < length ps")
  case False
  then show ?thesis using assms by simp
next
  case True
  let ?p = "ps ! i"
  let ?ps = "take i ps @ drop (Suc i) ps"
  let ?s = "handleSendMessage_end rc ?p outcome s"
  have split: "ps = take i ps @ ?p # drop (Suc i) ps"
    using True by (rule id_take_nth_drop)
  have "?p \<in> set ps" using True by simp
  then have ne: "p_chatId ?p \<noteq> []" using assms by (simp add: owned_def)
  have pend: "pendingIds ps k =
      (if k = p_chatId ?p then add_mset (p_loadingMessageId ?p) (pendingIds ?ps k)
       else pendingIds ?ps k)" for k
    by (subst split) (simp add: pendingIds_def pendingOn_def)
  have "loadingIds ?s k \<subseteq># pendingIds ?ps k" for k
  proof (cases "k = p_chatId ?p")
    case k: True
    have "loadingIds ?s k =
        image_mset msg_id (filter_mset (\<lambda>m. msg_isLoading m = Some True)
          (mset (map (\<lambda>m. if msg_id m = p_loadingMessageId ?p
                            then resolvedMessage rc ?p outcome else m)
                   (messages_or_empty (messages s) k))))"
      using k ne
      by (simp add: loadingIds_def loadingMessages_def end_messages replaceMessage_def
          messages_or_empty_upd)
    also have "\<dots> = filter_mset (\<lambda>x. x \<noteq> p_loadingMessageId ?p) (loadingIds s k)"
      using loading_replaced[OF resolved_not_loading[of rc ?p outcome]]
      by (simp add: loadingIds_def loadingMessages_def)
    finally have "loadingIds ?s k =
        filter_mset (\<lambda>x. x \<noteq> p_loadingMessageId ?p) (loadingIds s k)" .
    moreover have "loadingIds s k \<subseteq># add_mset (p_loadingMessageId ?p) (pendingIds ?ps k)"
    proof -
      have a: "loadingIds s k \<subseteq># pendingIds ps k" using assms by (simp add: owned_def)
      have b: "pendingIds ps k = add_mset (p_loadingMessageId ?p) (pendingIds ?ps k)"
        using pend[of k] k by simp
      show ?thesis using a unfolding b .
    qed
    ultimately show ?thesis by (simp add: filter_subset_remove)
  next
    case k: False
    then have "loadingIds ?s k = loadingIds s k"
      by (simp add: loadingIds_def loadingMessages_def end_messages replaceMessage_def
          messages_or_empty_upd)
    moreover have "loadingIds s k \<subseteq># pendingIds ps k" using assms by (simp add: owned_def)
    moreover have "pendingIds ps k = pendingIds ?ps k" using pend[of k] k by simp
    ultimately show ?thesis by simp
  qed
  moreover have "\<forall>q \<in> set ?ps. p_chatId q \<noteq> []"
    using assms by (auto simp: owned_def dest: in_set_takeD in_set_dropD)
  ultimately show ?thesis using True by (simp add: owned_def)
qed

lemma owned_step: "owned sys \<Longrightarrow> owned (step ev sys)"
  by (cases sys; cases ev) (simp_all only: owned_NewChat owned_SelectChat owned_Send owned_Settle)

lemma owned_run: "owned sys \<Longrightarrow> owned (run evs sys)"
  unfolding run_def by (induction evs arbitrary: sys) (simp_all add: owned_step)

text \<open>
  C4, as a bound by the suspended sends.  In every state the application reaches from its
  initial state, by any interleaving of new chats, chat selections, sends and settled
  backend calls, a chat holds at most as many loading messages as there are suspended
  sends on it: at most one as long as each send on the chat is issued after the previous
  one has settled.
\<close>

theorem loading_bounded_by_pending:
  "length (loadingMessages (fst (run evs initial_system)) chatId)
     \<le> length (pendingOn (snd (run evs initial_system)) chatId)"
proof -
  have "owned (run evs initial_system)" by (rule owned_run[OF owned_initial])
  then have "loadingIds (fst (run evs initial_system)) chatId
      \<subseteq># pendingIds (snd (run evs initial_system)) chatId"
    by (simp add: owned_def)
  then have "size (loadingIds (fst (run evs initial_system)) chatId)
      \<le> size (pendingIds (snd (run evs initial_system)) chatId)"
    by (rule size_mset_mono)
  then show ?thesis by (simp add: loadingIds_def pendingIds_def)
qed

section \<open>A completed send (C1)\<close>

text \<open>
  The ids come from the clock, and the replacement goes by id.  A first send at time 5
  takes the id 6 for its loading message; a second send, issued at time 6 while the first
  is suspended, takes the id 6 for its user message.  When the first call settles, its
  reply replaces both messages: after the two sends have completed the chat holds one user
  message and three bot messages, two of them with the id 6.  The run is not fresh.
\<close>

theorem completed_send_counterexample:
  "map msg_sender (chatMessages (fst (run
      [Send None (clock_at 5) ''a'' None, Send (Some ''5'') (clock_at 6) ''b'' None,
       Settle 0 (resolve_at 8) (exampleReply ''r1''),
       Settle 0 (resolve_at 9) (exampleReply ''r2'')] initial_system)) ''5'') =
     [User, Bot, Bot, Bot]
   \<and> map msg_id (chatMessages (fst (run
      [Send None (clock_at 5) ''a'' None, Send (Some ''5'') (clock_at 6) ''b'' None,
       Settle 0 (resolve_at 8) (exampleReply ''r1''),
       Settle 0 (resolve_at 9) (exampleReply ''r2'')] initial_system)) ''5'') =
     [''5'', ''6'', ''6'', ''7'']
   \<and> map msg_text (chatMessages (fst (run
      [Send None (clock_at 5) ''a'' None, Send (Some ''5'') (clock_at 6) ''b'' None,
       Settle 0 (resolve_at 8) (exampleReply ''r1''),
       Settle 0 (resolve_at 9) (exampleReply ''r2'')] initial_system)) ''5'') =
     [''a'', ''r1'', ''r1'', ''r2'']
   \<and> snd (run
      [Send None (clock_at 5) ''a'' None, Send (Some ''5'') (clock_at 6) ''b'' None,
       Settle 0 (resolve_at 8) (exampleReply ''r1''),
       Settle 0 (resolve_at 9) (exampleReply ''r2'')] initial_system) = []
   \<and> \<not> freshRun
      [Send None (clock_at 5) ''a'' None, Send (Some ''5'') (clock_at 6) ''b'' None,
       Settle 0 (resolve_at 8) (exampleReply ''r1''),
       Settle 0 (resolve_at 9) (exampleReply ''r2'')] initial_system"
  by (simp add: run_eval begin_eval end_eval usedIds_def chatMessages_def pendingOn_def)

text \<open>Fresh runs keep the system consistent.\<close>

lemma run_append: "run (xs @ ys) sys = run ys (run xs sys)"
  by (simp add: run_def)

lemma run_Cons: "run (ev # evs) sys = run evs (step ev sys)"
  by (simp add: run_def)

lemma freshRun_append: "freshRun (xs @ ys) sys = (freshRun xs sys \<and> freshRun ys (run xs sys))"
  by (induction xs arbitrary: sys) (simp_all add: run_def)

lemma consistent_initial: "consistent initial_system"
  by (simp add: consistent_def initial_system_def initial_state_def loadingIds_def
      loadingMessages_def messages_or_empty_def chatMessages_def pendingIds_def pendingOn_def)

lemma chatMessages_upd:
  "chatMessages (s\<lparr>messages := (messages s)(k \<mapsto> v)\<rparr>) c = (if c = k then v else chatMessages s c)"
  by (simp add: chatMessages_def messages_or_empty_def)

lemma loadingIds_chat:
  "loadingIds s c =
     image_mset msg_id (filter_mset (\<lambda>m. msg_isLoading m = Some True) (mset (chatMessages s c)))"
  by (simp add: loadingIds_def loadingMessages_def chatMessages_def)

lemma consistent_NewChat:
  assumes "consistent (s, ps)" and "freshIds (NewChat now date) (s, ps)"
  shows "consistent (step (NewChat now date) (s, ps))"
proof -
  have "chatMessages (handleNewChat now date s) c = chatMessages s c" for c
    using assms(2)
    by (simp add: handleNewChat_def Let_def newChat_def chatMessages_def messages_or_empty_def)
  then show ?thesis using assms(1) by (simp add: consistent_def loadingIds_chat)
qed

lemma fresh_previous:
  "freshIds (Send a clk txt lang) (s, ps) \<Longrightarrow>
     previousMessages a s = chatMessages s (targetChat clk a)"
  by (auto simp: previousMessages_def targetChat_def chatMessages_def messages_or_empty_def
      split: option.splits)

lemma begin_chatMessages:
  assumes "handleSendMessage_begin a clk txt lang s = (p, s')"
    and "freshIds (Send a clk txt lang) (s, ps)"
  shows "chatMessages s' c =
           (if c = targetChat clk a
            then chatMessages s c @ [userMessage clk txt, loadingMessage clk]
            else chatMessages s c)"
  using begin_messages[OF assms(1)] fresh_previous[OF assms(2)]
  by (simp add: chatMessages_def messages_or_empty_def)

lemma consistent_Send:
  assumes "consistent (s, ps)" and fr: "freshIds (Send a clk txt lang) (s, ps)"
  shows "consistent (step (Send a clk txt lang) (s, ps))"
proof -
  obtain p s' where b: "handleSendMessage_begin a clk txt lang s = (p, s')"
    by (cases "handleSendMessage_begin a clk txt lang s")
  let ?c = "targetChat clk a"
  have p: "p_chatId p = ?c" "p_loadingMessageId p = loadingMessageId clk"
    using begin_pending[OF b] by simp_all
  have m: "chatMessages s' c =
           (if c = ?c then chatMessages s c @ [userMessage clk txt, loadingMessage clk]
            else chatMessages s c)" for c
    by (rule begin_chatMessages[OF b fr])
  have d: "distinct (map msg_id (chatMessages s' c))" for c
    using assms m[of c]
    by (auto simp: consistent_def usedIds_def userMessage_def loadingMessage_def)
  have l: "loadingIds s' c = pendingIds (ps @ [p]) c" for c
  proof -
    have "loadingIds s c = pendingIds ps c" using assms(1) by (simp add: consistent_def)
    then show ?thesis
      using m[of c] p
      by (simp add: loadingIds_chat pendingIds_def pendingOn_def userMessage_def
          loadingMessage_def)
  qed
  have "\<forall>q \<in> set (ps @ [p]). p_chatId q \<noteq> []"
    using assms(1) p targetChat_nonempty by (auto simp: consistent_def)
  then show ?thesis using b d l by (simp add: consistent_def)
qed

lemma distinct_count_le:
  "distinct (map f xs) \<Longrightarrow> count (image_mset f (filter_mset P (mset xs))) x \<le> 1"
proof -
  assume d: "distinct (map f xs)"
  have "image_mset f (filter_mset P (mset xs)) \<subseteq># image_mset f (mset xs)"
    by (simp add: image_mset_subseteq_mono)
  then have "count (image_mset f (filter_mset P (mset xs))) x \<le> count (mset (map f xs)) x"
    by (simp add: mset_subset_eq_count)
  also have "\<dots> \<le> 1" using d by (simp add: distinct_count_atmost_1)
  finally show ?thesis .
qed

lemma consistent_Settle:
  assumes "consistent (s, ps)"
  shows "consistent (step (Settle i rc outcome) (s, ps))"
proof (cases "i < length ps")
  case False
  then show ?thesis using assms by simp
next
  case True
  let ?p = "ps ! i"
  let ?ps = "take i ps @ drop (Suc i) ps"
  let ?s = "handleSendMessage_end rc ?p outcome s"
  let ?mid = "p_loadingMessageId ?p"
  let ?f = "\<lambda>m. if msg_id m = ?mid then resolvedMessage rc ?p outcome else m"
  have split: "ps = take i ps @ ?p # drop (Suc i) ps"
    using True by (rule id_take_nth_drop)
  have "?p \<in> set ps" using True by simp
  then have ne: "p_chatId ?p \<noteq> []" using assms by (simp add: consistent_def)
  have pend: "pendingIds ps k =
      (if k = p_chatId ?p then add_mset ?mid (pendingIds ?ps k) else pendingIds ?ps k)" for k
    by (subst split) (simp add: pendingIds_def pendingOn_def)
  have m: "chatMessages ?s c = (if c = p_chatId ?p then map ?f (chatMessages s c)
                                else chatMessages s c)" for c
    using ne by (simp add: end_messages chatMessages_def replaceMessage_def messages_or_empty_upd)
  have rid: "msg_id (resolvedMessage rc ?p outcome) = ?mid"
    by (simp add: resolvedMessage_def replyMessage_def failureMessage_def split: sum.splits)
  have ids: "map (msg_id \<circ> ?f) xs = map msg_id xs" for xs
    using rid by (induction xs) auto
  have "map msg_id (chatMessages ?s c) = map msg_id (chatMessages s c)" for c
    by (simp add: m ids)
  then have d: "distinct (map msg_id (chatMessages ?s c))" for c
    using assms by (simp add: consistent_def)
  have l: "loadingIds ?s c = pendingIds ?ps c" for c
  proof (cases "c = p_chatId ?p")
    case c: True
    have eq: "loadingIds s c = add_mset ?mid (pendingIds ?ps c)"
      using assms pend[of c] c by (simp add: consistent_def)
    have "count (loadingIds s c) ?mid \<le> 1"
      unfolding loadingIds_chat
      using assms by (intro distinct_count_le) (simp add: consistent_def)
    then have notin: "?mid \<notin># pendingIds ?ps c"
      unfolding eq by (simp add: not_in_iff)
    have "loadingIds ?s c = filter_mset (\<lambda>x. x \<noteq> ?mid) (loadingIds s c)"
      using loading_replaced[OF resolved_not_loading[of rc ?p outcome]] m[of c] c
      by (simp add: loadingIds_chat)
    also have "\<dots> = pendingIds ?ps c"
      unfolding eq using notin by (auto simp: filter_mset_eq_conv)
    finally show ?thesis .
  next
    case c: False
    then show ?thesis using assms pend[of c] m[of c] by (simp add: consistent_def loadingIds_chat)
  qed
  have "\<forall>q \<in> set ?ps. p_chatId q \<noteq> []"
    using assms by (auto simp: consistent_def dest: in_set_takeD in_set_dropD)
  then show ?thesis using True d l by (simp add: consistent_def)
qed

lemma consistent_SelectChat:
  "consistent (s, ps) \<Longrightarrow> consistent (step (SelectChat c) (s, ps))"
  by (simp add: consistent_def loadingIds_chat chatMessages_def)

lemma consistent_step:
  assumes "consistent sys" and "freshIds ev sys"
  shows "consistent (step ev sys)"
proof (cases sys)
  case (Pair s ps)
  show ?thesis
  proof (cases ev)
    case (NewChat now date)
    then show ?thesis using assms Pair by (simp only: consistent_NewChat)
  next
    case (SelectChat c)
    then show ?thesis using assms Pair by (simp only: consistent_SelectChat)
  next
    case (Send a clk tx lang)
    then show ?thesis using assms Pair by (simp only: consistent_Send)
  next
    case (Settle i rc outcome)
    then show ?thesis using assms Pair by (simp only: consistent_Settle)
  qed
qed

lemma consistent_run: "consistent sys \<Longrightarrow> freshRun evs sys \<Longrightarrow> consistent (run evs sys)"
  by (induction evs arbitrary: sys) (simp_all add: run_def consistent_step)

text \<open>In a fresh run a send keeps its place in the chat.\<close>

lemma newChat_chatMessages:
  "freshIds (NewChat now date) (s, ps) \<Longrightarrow>
     chatMessages (handleNewChat now date s) c = chatMessages s c"
  by (simp add: handleNewChat_def Let_def newChat_def chatMessages_def messages_or_empty_def)

lemma settle_chatMessages:
  "p_chatId p \<noteq> [] \<Longrightarrow>
     chatMessages (handleSendMessage_end rc p outcome s) c =
       (if c = p_chatId p
        then map (\<lambda>m. if msg_id m = p_loadingMessageId p then resolvedMessage rc p outcome else m)
               (chatMessages s c)
        else chatMessages s c)"
  by (simp add: end_messages chatMessages_def replaceMessage_def messages_or_empty_upd)

lemma resolved_id: "msg_id (resolvedMessage rc p outcome) = p_loadingMessageId p"
  by (simp add: resolvedMessage_def replyMessage_def failureMessage_def split: sum.splits)

lemma pending_has_loading:
  assumes "consistent (s, ps)" and "i < length ps"
  shows "\<exists>y \<in> set (chatMessages s (p_chatId (ps ! i))).
           msg_isLoading y = Some True \<and> msg_id y = p_loadingMessageId (ps ! i)"
proof -
  let ?p = "ps ! i"
  have "?p \<in> set (pendingOn ps (p_chatId ?p))" using assms(2) by (simp add: pendingOn_def)
  then have "p_loadingMessageId ?p \<in># pendingIds ps (p_chatId ?p)"
    by (auto simp: pendingIds_def)
  then have "p_loadingMessageId ?p \<in># loadingIds s (p_chatId ?p)"
    using assms(1) by (simp add: consistent_def)
  then show ?thesis by (auto simp: loadingIds_chat)
qed

lemma same_id_same_message:
  assumes "consistent (s, ps)" and "x \<in> set (chatMessages s c)" and "y \<in> set (chatMessages s c)"
    and "msg_id x = msg_id y"
  shows "x = y"
proof -
  have "distinct (map msg_id (chatMessages s c))" using assms(1) by (simp add: consistent_def)
  then have "inj_on msg_id (set (chatMessages s c))" by (simp add: distinct_map)
  then show ?thesis using assms(2-4) by (auto dest: inj_onD)
qed

lemma inChat_Settle:
  assumes c: "consistent (s, ps)" and i: "inChat U L (chatMessages s c)"
    and u: "msg_isLoading U \<noteq> Some True"
  shows "inChat U L (chatMessages (fst (step (Settle j rc outcome) (s, ps))) c)"
proof (cases "j < length ps \<and> c = p_chatId (ps ! j)")
  case False
  show ?thesis
  proof (cases "j < length ps")
    case True
    then have "ps ! j \<in> set ps" by simp
    then have "p_chatId (ps ! j) \<noteq> []" using c by (simp add: consistent_def)
    then show ?thesis using i False True by (simp add: settle_chatMessages)
  next
    case False
    then show ?thesis using i by simp
  qed
next
  case True
  let ?q = "ps ! j"
  let ?R = "resolvedMessage rc ?q outcome"
  let ?f = "\<lambda>m. if msg_id m = p_loadingMessageId ?q then ?R else m"
  from True have "?q \<in> set ps" by simp
  then have ne: "p_chatId ?q \<noteq> []" using c by (simp add: consistent_def)
  obtain pre x post where ms: "chatMessages s c = pre @ [U, x] @ post" and h: "holdsPlace L x"
    using i by (auto simp: inChat_def)
  obtain y where y: "y \<in> set (chatMessages s c)" "msg_isLoading y = Some True"
      "msg_id y = p_loadingMessageId ?q"
    using pending_has_loading[OF c, of j] True by auto
  have "U \<in> set (chatMessages s c)" using ms by simp
  then have "msg_id U \<noteq> p_loadingMessageId ?q"
    using same_id_same_message[OF c _ y(1), of U] y(2,3) u by auto
  then have fU: "?f U = U" by simp
  have hx: "holdsPlace L (?f x)"
    using h resolved_id[of rc ?q outcome] resolved_not_loading[of rc ?q outcome]
    by (auto simp: holdsPlace_def)
  have "chatMessages (fst (step (Settle j rc outcome) (s, ps))) c = map ?f (chatMessages s c)"
    using True ne by (simp add: settle_chatMessages)
  also have "\<dots> = map ?f pre @ [U, ?f x] @ map ?f post"
    using fU by (simp add: ms)
  finally show ?thesis using hx unfolding inChat_def by blast
qed

lemma inChat_Send:
  assumes fr: "freshIds (Send a clk tx lang) (s, ps)" and i: "inChat U L (chatMessages s c)"
  shows "inChat U L (chatMessages (fst (step (Send a clk tx lang) (s, ps))) c)"
proof -
  obtain p s' where b: "handleSendMessage_begin a clk tx lang s = (p, s')"
    by (cases "handleSendMessage_begin a clk tx lang s")
  obtain pre x post where ms: "chatMessages s c = pre @ [U, x] @ post" and h: "holdsPlace L x"
    using i by (auto simp: inChat_def)
  show ?thesis
  proof (cases "c = targetChat clk a")
    case True
    have "chatMessages s' c = pre @ [U, x] @ (post @ [userMessage clk tx, loadingMessage clk])"
      using begin_chatMessages[OF b fr, of c] True ms by simp
    then show ?thesis using h b unfolding inChat_def by (simp del: append_assoc) blast
  next
    case False
    then show ?thesis using begin_chatMessages[OF b fr, of c] i b by simp
  qed
qed

lemma inChat_step:
  assumes "consistent sys" and "freshIds ev sys" and "inChat U L (chatMessages (fst sys) c)"
    and "msg_isLoading U \<noteq> Some True"
  shows "inChat U L (chatMessages (fst (step ev sys)) c)"
proof (cases sys)
  case (Pair s ps)
  show ?thesis
  proof (cases ev)
    case (NewChat now date)
    then show ?thesis using assms Pair by (simp add: newChat_chatMessages)
  next
    case (SelectChat k)
    then show ?thesis using assms Pair by (simp add: chatMessages_def)
  next
    case (Send a clk tx lang)
    then show ?thesis using assms Pair inChat_Send by simp
  next
    case (Settle j rc outcome)
    then show ?thesis using assms Pair inChat_Settle by simp
  qed
qed

lemma inChat_run:
  assumes "consistent sys" and "freshRun evs sys" and "inChat U L (chatMessages (fst sys) c)"
    and "msg_isLoading U \<noteq> Some True"
  shows "inChat U L (chatMessages (fst (run evs sys)) c)"
  using assms
proof (induction evs arbitrary: sys)
  case Nil
  then show ?case by (simp add: run_def)
next
  case (Cons ev evs)
  have "inChat U L (chatMessages (fst (run evs (step ev sys))) c)"
    using Cons.prems by (intro Cons.IH consistent_step inChat_step) simp_all
  then show ?case by (simp add: run_Cons)
qed

text \<open>A completed send keeps its two messages in a fresh run.\<close>

lemma settle_spares:
  assumes c: "consistent (s, ps)" and j: "j < length ps"
    and m: "m \<in> set (chatMessages s (p_chatId (ps ! j)))"
    and n: "msg_isLoading m \<noteq> Some True"
  shows "msg_id m \<noteq> p_loadingMessageId (ps ! j)"
proof -
  obtain y where y: "y \<in> set (chatMessages s (p_chatId (ps ! j)))" "msg_isLoading y = Some True"
      "msg_id y = p_loadingMessageId (ps ! j)"
    using pending_has_loading[OF c j] by auto
  show ?thesis using same_id_same_message[OF c m y(1)] y(2,3) n by auto
qed

lemma answered_Settle:
  assumes c: "consistent (s, ps)" and i: "answered U R (chatMessages s c)"
    and u: "msg_isLoading U \<noteq> Some True" and r: "msg_isLoading R \<noteq> Some True"
  shows "answered U R (chatMessages (fst (step (Settle j rc outcome) (s, ps))) c)"
proof (cases "j < length ps \<and> c = p_chatId (ps ! j)")
  case False
  show ?thesis
  proof (cases "j < length ps")
    case True
    then have "ps ! j \<in> set ps" by simp
    then have "p_chatId (ps ! j) \<noteq> []" using c by (simp add: consistent_def)
    then show ?thesis using i False True by (simp add: settle_chatMessages)
  next
    case False
    then show ?thesis using i by simp
  qed
next
  case True
  let ?q = "ps ! j"
  let ?f = "\<lambda>m. if msg_id m = p_loadingMessageId ?q then resolvedMessage rc ?q outcome else m"
  from True have "?q \<in> set ps" by simp
  then have ne: "p_chatId ?q \<noteq> []" using c by (simp add: consistent_def)
  obtain pre post where ms: "chatMessages s c = pre @ [U, R] @ post"
    using i by (auto simp: answered_def)
  have "U \<in> set (chatMessages s (p_chatId ?q))" "R \<in> set (chatMessages s (p_chatId ?q))"
    using ms True by simp_all
  then have fU: "?f U = U" and fR: "?f R = R"
    using settle_spares[OF c _ _ u, of j] settle_spares[OF c _ _ r, of j] True by simp_all
  have "chatMessages (fst (step (Settle j rc outcome) (s, ps))) c = map ?f (chatMessages s c)"
    using True ne by (simp add: settle_chatMessages)
  also have "\<dots> = map ?f pre @ [U, R] @ map ?f post"
    using fU fR by (simp add: ms)
  finally show ?thesis unfolding answered_def by blast
qed

lemma answered_Send:
  assumes fr: "freshIds (Send a clk tx lang) (s, ps)" and i: "answered U R (chatMessages s c)"
  shows "answered U R (chatMessages (fst (step (Send a clk tx lang) (s, ps))) c)"
proof -
  obtain p s' where b: "handleSendMessage_begin a clk tx lang s = (p, s')"
    by (cases "handleSendMessage_begin a clk tx lang s")
  obtain pre post where ms: "chatMessages s c = pre @ [U, R] @ post"
    using i by (auto simp: answered_def)
  show ?thesis
  proof (cases "c = targetChat clk a")
    case True
    have "chatMessages s' c = pre @ [U, R] @ (post @ [userMessage clk tx, loadingMessage clk])"
      using begin_chatMessages[OF b fr, of c] True ms by simp
    then show ?thesis using b unfolding answered_def by (simp del: append_assoc) blast
  next
    case False
    then show ?thesis using begin_chatMessages[OF b fr, of c] i b by simp
  qed
qed

lemma answered_step:
  assumes "consistent sys" and "freshIds ev sys" and "answered U R (chatMessages (fst sys) c)"
    and "msg_isLoading U \<noteq> Some True" and "msg_isLoading R \<noteq> Some True"
  shows "answered U R (chatMessages (fst (step ev sys)) c)"
proof (cases sys)
  case (Pair s ps)
  show ?thesis
  proof (cases ev)
    case (NewChat now date)
    then show ?thesis using assms Pair by (simp add: newChat_chatMessages)
  next
    case (SelectChat k)
    then show ?thesis using assms Pair by (simp add: chatMessages_def)
  next
    case (Send a clk tx lang)
    then show ?thesis using assms Pair answered_Send by simp
  next
    case (Settle j rc outcome)
    then show ?thesis using assms Pair answered_Settle by simp
  qed
qed

lemma answered_run:
  assumes "consistent sys" and "freshRun evs sys" and "answered U R (chatMessages (fst sys) c)"
    and "msg_isLoading U \<noteq> Some True" and "msg_isLoading R \<noteq> Some True"
  shows "answered U R (chatMessages (fst (run evs sys)) c)"
  using assms
proof (induction evs arbitrary: sys)
  case Nil
  then show ?case by (simp add: run_def)
next
  case (Cons ev evs)
  have "answered U R (chatMessages (fst (run evs (step ev sys))) c)"
    using Cons.prems by (intro Cons.IH consistent_step answered_step) simp_all
  then show ?case by (simp add: run_Cons)
qed

lemma answered_once:
  assumes c: "consistent sys" and a: "answered U R (chatMessages (fst sys) k)"
  shows "\<exists>pre post. chatMessages (fst sys) k = pre @ [U, R] @ post
           \<and> msg_id U \<notin> set (map msg_id (pre @ post))
           \<and> msg_id R \<notin> set (map msg_id (pre @ post))"
proof -
  obtain pre post where ms: "chatMessages (fst sys) k = pre @ [U, R] @ post"
    using a by (auto simp: answered_def)
  have "distinct (map msg_id (chatMessages (fst sys) k))" using c by (simp add: consistent_def)
  then have "distinct (map msg_id (pre @ [U, R] @ post))" unfolding ms .
  then show ?thesis using ms by auto
qed

text \<open>
  C1, for fresh runs.  In a run from the initial state in which every id is new when it is
  drawn, take a send and the moment at which its backend call settles.  Just before, the
  chat holds, between \<open>pre\<close> and \<open>post\<close>, the user message of the send followed by its
  loading message; settling gives the same sequence with the bot message of the reply or of
  the error, under the id of the loading message, at the place of the loading message.
  From then on, whatever the run goes on with, the chat holds the user message followed by
  that bot message, and no other message of the chat has the id of either.  So a completed
  send contributes one user message and one bot message, nothing is duplicated, and the
  loading message is gone.
\<close>

theorem completed_send:
  assumes fr: "freshRun (evs1 @ Send a clk txt lang # evs2 @ Settle i rc outcome # evs3)
                 initial_system"
    and r: "run (evs1 @ Send a clk txt lang # evs2) initial_system = (s, ps)"
    and i: "i < length ps"
    and p: "ps ! i =
              \<lparr>p_chatId = targetChat clk a, p_loadingMessageId = loadingMessageId clk,
               p_text = txt, p_lang = with_default ''auto'' lang\<rparr>"
  shows "(\<exists>pre post.
           chatMessages s (targetChat clk a) =
             pre @ [\<lparr>msg_id = toString (now_user clk), msg_text = txt, msg_sender = User,
                     msg_timestamp = date_user clk, msg_isLoading = None, msg_lang = None\<rparr>,
                    \<lparr>msg_id = toString (now_loading clk + 1), msg_text = [], msg_sender = Bot,
                     msg_timestamp = date_loading clk, msg_isLoading = Some True,
                     msg_lang = None\<rparr>] @ post
         \<and> chatMessages (fst (step (Settle i rc outcome) (s, ps))) (targetChat clk a) =
             pre @ [\<lparr>msg_id = toString (now_user clk), msg_text = txt, msg_sender = User,
                     msg_timestamp = date_user clk, msg_isLoading = None, msg_lang = None\<rparr>,
                    \<lparr>msg_id = toString (now_loading clk + 1),
                     msg_text = (case outcome of
                                   Inr response \<Rightarrow> reply response
                                 | Inl error \<Rightarrow>
                                     ''Sorry, I encountered an error: '' @ errorMessage error
                                       @ ''. Please make sure the backend server is running.''),
                     msg_sender = Bot, msg_timestamp = date_message rc, msg_isLoading = None,
                     msg_lang = (case outcome of
                                   Inr response \<Rightarrow> Some (resp_lang response)
                                 | Inl error \<Rightarrow> None)\<rparr>] @ post
         \<and> toString (now_user clk) \<notin> set (map msg_id (pre @ post))
         \<and> toString (now_loading clk + 1) \<notin> set (map msg_id (pre @ post)))
       \<and> (\<exists>pre post.
           chatMessages (fst (run evs3 (step (Settle i rc outcome) (s, ps)))) (targetChat clk a) =
             pre @ [\<lparr>msg_id = toString (now_user clk), msg_text = txt, msg_sender = User,
                     msg_timestamp = date_user clk, msg_isLoading = None, msg_lang = None\<rparr>,
                    \<lparr>msg_id = toString (now_loading clk + 1),
                     msg_text = (case outcome of
                                   Inr response \<Rightarrow> reply response
                                 | Inl error \<Rightarrow>
                                     ''Sorry, I encountered an error: '' @ errorMessage error
                                       @ ''. Please make sure the backend server is running.''),
                     msg_sender = Bot, msg_timestamp = date_message rc, msg_isLoading = None,
                     msg_lang = (case outcome of
                                   Inr response \<Rightarrow> Some (resp_lang response)
                                 | Inl error \<Rightarrow> None)\<rparr>] @ post
         \<and> toString (now_user clk) \<notin> set (map msg_id (pre @ post))
         \<and> toString (now_loading clk + 1) \<notin> set (map msg_id (pre @ post)))"
proof -
  let ?c = "targetChat clk a"
  let ?U = "userMessage clk txt"
  let ?L = "loadingMessage clk"
  let ?p = "ps ! i"
  let ?R = "resolvedMessage rc ?p outcome"
  let ?f = "\<lambda>m. if msg_id m = p_loadingMessageId ?p then ?R else m"
  obtain s0 ps0 where s0: "run evs1 initial_system = (s0, ps0)"
    by (cases "run evs1 initial_system")
  obtain q s1 where b: "handleSendMessage_begin a clk txt lang s0 = (q, s1)"
    by (cases "handleSendMessage_begin a clk txt lang s0")
  from fr have f1: "freshRun evs1 initial_system"
    and f2: "freshIds (Send a clk txt lang) (s0, ps0)"
    and f34: "freshRun (evs2 @ Settle i rc outcome # evs3) (step (Send a clk txt lang) (s0, ps0))"
    by (simp_all add: freshRun_append s0)
  have c0: "consistent (s0, ps0)"
    using consistent_run[OF consistent_initial f1] s0 by simp
  have c1: "consistent (step (Send a clk txt lang) (s0, ps0))"
    by (rule consistent_step[OF c0 f2])
  have rr: "run evs2 (step (Send a clk txt lang) (s0, ps0)) = (s, ps)"
    using r by (simp add: run_append run_Cons s0)
  from f34 have "freshRun evs2 (step (Send a clk txt lang) (s0, ps0))
      \<and> freshRun (Settle i rc outcome # evs3) (run evs2 (step (Send a clk txt lang) (s0, ps0)))"
    by (simp only: freshRun_append)
  then have f3: "freshRun evs2 (step (Send a clk txt lang) (s0, ps0))"
    and "freshRun (Settle i rc outcome # evs3) (s, ps)"
    by (simp_all only: rr)
  then have f4: "freshRun evs3 (step (Settle i rc outcome) (s, ps))"
    by (simp only: freshRun.simps freshIds.simps simp_thms)
  have cs: "consistent (s, ps)"
    using consistent_run[OF c1 f3] rr by simp
  have "chatMessages s1 ?c = chatMessages s0 ?c @ [?U, ?L]"
    using begin_chatMessages[OF b f2, of ?c] by simp
  then have "inChat ?U ?L (chatMessages (fst (step (Send a clk txt lang) (s0, ps0))) ?c)"
    unfolding inChat_def holdsPlace_def using b
    by (intro exI[of _ "chatMessages s0 ?c"] exI[of _ ?L] exI[of _ "[]"]) simp
  moreover have u: "msg_isLoading ?U \<noteq> Some True" by (simp add: userMessage_def)
  ultimately have "inChat ?U ?L (chatMessages (fst (run evs2 (step (Send a clk txt lang) (s0, ps0)))) ?c)"
    using inChat_run[OF c1 f3] by blast
  then obtain pre x post where ms: "chatMessages s ?c = pre @ [?U, x] @ post"
    and h: "holdsPlace ?L x"
    unfolding inChat_def rr by auto
  have pc: "p_chatId ?p = ?c" and pl: "p_loadingMessageId ?p = loadingMessageId clk"
    using p by simp_all
  obtain y where y: "y \<in> set (chatMessages s ?c)" "msg_isLoading y = Some True"
      "msg_id y = loadingMessageId clk"
    using pending_has_loading[OF cs i] pc pl by auto
  have "x \<in> set (chatMessages s ?c)" using ms by simp
  moreover have "msg_id x = msg_id y" using h y(3) by (simp add: holdsPlace_def loadingMessage_def)
  ultimately have "x = y" using same_id_same_message[OF cs _ y(1)] by blast
  then have x: "x = ?L" using h y(2) by (auto simp: holdsPlace_def)
  have "distinct (map msg_id (chatMessages s ?c))" using cs by (simp add: consistent_def)
  then have d: "distinct (map msg_id (pre @ [?U, ?L] @ post))"
    unfolding ms x .
  have ids: "msg_id ?U = toString (now_user clk)" "msg_id ?L = loadingMessageId clk"
    by (simp_all add: userMessage_def loadingMessage_def)
  from d have nu: "toString (now_user clk) \<notin> set (map msg_id (pre @ post))"
    and nl: "loadingMessageId clk \<notin> set (map msg_id (pre @ post))"
    and ul: "toString (now_user clk) \<noteq> loadingMessageId clk"
    using ids by auto
  from nl have np: "loadingMessageId clk \<notin> set (map msg_id pre)"
    and nq: "loadingMessageId clk \<notin> set (map msg_id post)" by simp_all
  have ne: "p_chatId ?p \<noteq> []" using pc targetChat_nonempty by simp
  have "chatMessages (fst (step (Settle i rc outcome) (s, ps))) ?c = map ?f (chatMessages s ?c)"
    using i ne pc by (simp add: settle_chatMessages)
  also have "\<dots> = map ?f pre @ [?U, ?R] @ map ?f post"
    using ul ids by (simp add: ms x pl)
  also have "\<dots> = pre @ [?U, ?R] @ post"
    using map_replace_fresh[OF np] map_replace_fresh[OF nq] by (simp add: pl)
  finally have after: "chatMessages (fst (step (Settle i rc outcome) (s, ps))) ?c =
      pre @ [?U, ?R] @ post" .
  have R: "?R = \<lparr>msg_id = toString (now_loading clk + 1),
                     msg_text = (case outcome of
                                   Inr response \<Rightarrow> reply response
                                 | Inl error \<Rightarrow>
                                     ''Sorry, I encountered an error: '' @ errorMessage error
                                       @ ''. Please make sure the backend server is running.''),
                     msg_sender = Bot, msg_timestamp = date_message rc, msg_isLoading = None,
                     msg_lang = (case outcome of
                                   Inr response \<Rightarrow> Some (resp_lang response)
                                 | Inl error \<Rightarrow> None)\<rparr>"
    by (simp add: resolvedMessage_def replyMessage_def failureMessage_def errorText_def pl
        loadingMessageId_def split: sum.splits)
  have first: "\<exists>pre post.
           chatMessages s ?c = pre @ [?U, ?L] @ post
         \<and> chatMessages (fst (step (Settle i rc outcome) (s, ps))) ?c = pre @ [?U, ?R] @ post
         \<and> toString (now_user clk) \<notin> set (map msg_id (pre @ post))
         \<and> toString (now_loading clk + 1) \<notin> set (map msg_id (pre @ post))"
    using ms[unfolded x] after nu nl
    by (intro exI[of _ pre] exI[of _ post]) (simp add: loadingMessageId_def)
  have c2: "consistent (step (Settle i rc outcome) (s, ps))"
    by (rule consistent_step[OF cs]) simp
  have "answered ?U ?R (chatMessages (fst (step (Settle i rc outcome) (s, ps))) ?c)"
    unfolding answered_def using after by blast
  moreover have "msg_isLoading ?R \<noteq> Some True" by (rule resolved_not_loading)
  ultimately have "answered ?U ?R
      (chatMessages (fst (run evs3 (step (Settle i rc outcome) (s, ps)))) ?c)"
    using answered_run[OF c2 f4] u by blast
  from answered_once[OF consistent_run[OF c2 f4] this]
  have second: "\<exists>pre post.
           chatMessages (fst (run evs3 (step (Settle i rc outcome) (s, ps)))) ?c =
             pre @ [?U, ?R] @ post
         \<and> toString (now_user clk) \<notin> set (map msg_id (pre @ post))
         \<and> toString (now_loading clk + 1) \<notin> set (map msg_id (pre @ post))"
    using ids by (simp add: resolved_id pl loadingMessageId_def)
  show ?thesis
    using first second unfolding R
    by (simp add: userMessage_def loadingMessage_def loadingMessageId_def)
qed

lemmas fresh_eval = usedIds_def chatMessages_def pendingOn_def

theorem completed_send_witness:
  "freshRun
     [Send None (clock_at 5) ''a'' None, Send (Some ''5'') (clock_at 7) ''b'' None,
      Settle 0 (resolve_at 9) (exampleReply ''r1''),
      Settle 0 (resolve_at 10) (Inl (Error ''offline''))] initial_system
   \<and> snd (run [Send None (clock_at 5) ''a'' None, Send (Some ''5'') (clock_at 7) ''b'' None]
       initial_system) ! 0 =
     \<lparr>p_chatId = ''5'', p_loadingMessageId = ''6'', p_text = ''a'', p_lang = ''auto''\<rparr>
   \<and> chatMessages (fst (run
        [Send None (clock_at 5) ''a'' None, Send (Some ''5'') (clock_at 7) ''b'' None,
         Settle 0 (resolve_at 9) (exampleReply ''r1'')] initial_system)) ''5'' =
     [\<lparr>msg_id = ''5'', msg_text = ''a'', msg_sender = User, msg_timestamp = 5,
       msg_isLoading = None, msg_lang = None\<rparr>,
      \<lparr>msg_id = ''6'', msg_text = ''r1'', msg_sender = Bot, msg_timestamp = 9,
       msg_isLoading = None, msg_lang = Some ''en''\<rparr>,
      \<lparr>msg_id = ''7'', msg_text = ''b'', msg_sender = User, msg_timestamp = 7,
       msg_isLoading = None, msg_lang = None\<rparr>,
      \<lparr>msg_id = ''8'', msg_text = [], msg_sender = Bot, msg_timestamp = 7,
       msg_isLoading = Some True, msg_lang = None\<rparr>]
   \<and> chatMessages (fst (run
        [Send None (clock_at 5) ''a'' None, Send (Some ''5'') (clock_at 7) ''b'' None,
         Settle 0 (resolve_at 9) (exampleReply ''r1''),
         Settle 0 (resolve_at 10) (Inl (Error ''offline''))] initial_system)) ''5'' =
     [\<lparr>msg_id = ''5'', msg_text = ''a'', msg_sender = User, msg_timestamp = 5,
       msg_isLoading = None, msg_lang = None\<rparr>,
      \<lparr>msg_id = ''6'', msg_text = ''r1'', msg_sender = Bot, msg_timestamp = 9,
       msg_isLoading = None, msg_lang = Some ''en''\<rparr>,
      \<lparr>msg_id = ''7'', msg_text = ''b'', msg_sender = User, msg_timestamp = 7,
       msg_isLoading = None, msg_lang = None\<rparr>,
      \<lparr>msg_id = ''8'',
       msg_text = ''Sorry, I encountered an error: offline. Please make sure the backend server is running.'',
       msg_sender = Bot, msg_timestamp = 10, msg_isLoading = None, msg_lang = None\<rparr>]"
  using completed_send[of "[]" None "clock_at 5" "''a''" None
      "[Send (Some ''5'') (clock_at 7) ''b'' None]" 0 "resolve_at 9" "exampleReply ''r1''"
      "[Settle 0 (resolve_at 10) (Inl (Error ''offline''))]"
      "fst (run [Send None (clock_at 5) ''a'' None, Send (Some ''5'') (clock_at 7) ''b'' None]
         initial_system)"
      "snd (run [Send None (clock_at 5) ''a'' None, Send (Some ''5'') (clock_at 7) ''b'' None]
         initial_system)"]
  by (simp add: run_eval begin_eval end_eval fresh_eval)

section \<open>The summary of a chat (C5)\<close>

text \<open>
  C5.  The summary update of the target chat: when the title is still \<open>New
  Chat\<close> and the text is longer than 30, the title becomes the first 30 characters
  of the text followed by \<open>...\<close> and \<open>lastMessage\<close> the whole
  text; when the title is no longer \<open>New Chat\<close>, only
  \<open>lastMessage\<close> and \<open>timestamp\<close> change.
\<close>

theorem updateChatSummary_title:
  assumes "i < length cs" and "chat_id (cs ! i) = chatId"
  shows "(chat_title (cs ! i) = ''New Chat'' \<and> length txt > 30 \<longrightarrow>
            updateChatSummary chatId txt date cs ! i =
              (cs ! i)\<lparr>chat_title := take 30 txt @ ''...'', chat_lastMessage := txt,
                       chat_timestamp := date\<rparr>
            \<and> length (take 30 txt) = 30)
         \<and> (chat_title (cs ! i) \<noteq> ''New Chat'' \<longrightarrow>
            updateChatSummary chatId txt date cs ! i =
              (cs ! i)\<lparr>chat_lastMessage := txt, chat_timestamp := date\<rparr>
            \<and> chat_title (updateChatSummary chatId txt date cs ! i) = chat_title (cs ! i))"
  using assms by (simp add: updateChatSummary_def summary_title_def)

theorem updateChatSummary_title_witness:
  "updateChatSummary ''7'' ''What are the symptoms of dengue fever?'' 9 [exampleChat ''New Chat''] ! 0 =
     \<lparr>chat_id = ''7'', chat_title = ''What are the symptoms of dengu...'',
      chat_lastMessage = ''What are the symptoms of dengue fever?'', chat_timestamp = 9\<rparr>
   \<and> updateChatSummary ''7'' ''What are the symptoms of dengue fever?'' 9 [exampleChat ''Fever''] ! 0 =
     \<lparr>chat_id = ''7'', chat_title = ''Fever'',
      chat_lastMessage = ''What are the symptoms of dengue fever?'', chat_timestamp = 9\<rparr>"
  using updateChatSummary_title[of 0 "[exampleChat ''New Chat'']" "''7''"
      "''What are the symptoms of dengue fever?''" 9]
    updateChatSummary_title[of 0 "[exampleChat ''Fever'']" "''7''"
      "''What are the symptoms of dengue fever?''" 9]
  by (simp add: exampleChat_def)

section \<open>Appending to an unknown chat (C8)\<close>

text \<open>
  With an active chat id that is no key of the conversation map, the user message is not
  dropped: the key is created.
\<close>

theorem append_unknown_chat_counterexample:
  "messages (initial_state\<lparr>activeChatId := Some ''42''\<rparr>) ''42'' = None
   \<and> messages (snd (resolveChat (Some ''42'') (clock_at 5) ''Hello''
        (initial_state\<lparr>activeChatId := Some ''42''\<rparr>))) ''42'' =
       Some [userMessage (clock_at 5) ''Hello'']"
  by (simp add: resolveChat_def truthy_def initial_state_def appendMessage_def
      messages_or_empty_def)

text \<open>
  C8, as the updater appends.  Appending a message to a chat id that is no key of the
  conversation map creates the key, with the message as its whole sequence; the chat
  collection and the sequences of the other chats stay as they are.
\<close>

theorem append_unknown_chat:
  assumes "truthy a = Some chatId" and "messages s chatId = None"
  shows "appendMessage chatId msg (messages s) = (messages s)(chatId \<mapsto> [msg])
         \<and> resolveChat a clk txt s =
             (chatId, s\<lparr>messages := (messages s)(chatId \<mapsto> [userMessage clk txt])\<rparr>)
         \<and> chats (snd (resolveChat a clk txt s)) = chats s
         \<and> dom (messages (snd (resolveChat a clk txt s))) = insert chatId (dom (messages s))
         \<and> (\<forall>k. k \<noteq> chatId \<longrightarrow> messages (snd (resolveChat a clk txt s)) k = messages s k)"
  using assms by (simp add: resolveChat_def appendMessage_def messages_or_empty_def)

theorem append_unknown_chat_witness:
  "truthy (Some ''42'') = Some ''42''
   \<and> messages (initial_state\<lparr>activeChatId := Some ''42''\<rparr>) ''42'' = None
   \<and> dom (messages (snd (resolveChat (Some ''42'') (clock_at 5) ''Hello''
        (initial_state\<lparr>activeChatId := Some ''42''\<rparr>)))) = {''42''}"
  using append_unknown_chat[of "Some ''42''" "''42''"
      "initial_state\<lparr>activeChatId := Some ''42''\<rparr>"
      "userMessage (clock_at 5) ''Hello''" "clock_at 5" "''Hello''"]
  by (simp add: truthy_def initial_state_def)

section \<open>The backend client (C6)\<close>

lemmas client_eval = sendMessage_def fetch_def chatRequest_def attempt_def normalize_def ok_def
  answering_def httpStatus_def jsonBody_def with_default_def toString.simps digit_char_def

text \<open>
  A response with status 200 whose body is no JSON: the network call has completed and the
  status is in the success range, and yet the call fails, since
  \<open>response.json()\<close> throws inside the same \<open>try\<close>.
\<close>

theorem sendMessage_counterexample:
  "ok \<lparr>status = 200, json = Inl (Error ''Unexpected token < in JSON at position 0'')\<rparr>
   \<and> fst (sendMessage ''http://localhost:5050'' ''Hello'' (Some ''auto'')
        (answering (jsonBody 200 (Inl (Error ''Unexpected token < in JSON at position 0''))))) =
      Inl (Error ''Failed to get response: Unexpected token < in JSON at position 0'')"
  by (simp add: client_eval)

text \<open>
  C6, with the failure of the body.  A call of \<open>chatAPI.sendMessage\<close> sends
  exactly one request, the POST of the query and the language to \<open>/chat\<close>.  It
  returns the parsed body when the status of the response is in the success range and the
  body parses; it fails exactly when \<open>fetch\<close> rejects, or the status is not in
  the success range, or the body does not parse. The error it throws is an
  \<open>Error\<close> whose message is \<open>Failed to get response: \<close> followed
  by the message of the cause (for a status: \<open>HTTP error! status: \<close> and the
  status) when the cause is an \<open>Error\<close>, and a fixed message otherwise.
\<close>

theorem sendMessage_contract:
  "sent (snd (sendMessage base q lang net)) = sent net @ [chatRequest base q lang]
   \<and> answers (snd (sendMessage base q lang net)) = answers net
   \<and> fst (sendMessage base q lang net) =
       (case answers net (length (sent net)) of
          Rejected e \<Rightarrow> Inl (normalize e)
        | Fulfilled response \<Rightarrow>
            if \<not> ok response
            then Inl (Error (''Failed to get response: HTTP error! status: ''
                             @ toString (status response)))
            else (case json response of
                    Inl e \<Rightarrow> Inl (normalize e)
                  | Inr data \<Rightarrow> Inr data))
   \<and> (isl (fst (sendMessage base q lang net)) \<longleftrightarrow>
        (case answers net (length (sent net)) of
           Rejected e \<Rightarrow> True
         | Fulfilled response \<Rightarrow> \<not> ok response \<or> isl (json response)))
   \<and> normalize (Error m) = Error (''Failed to get response: '' @ m)
   \<and> normalize NonError =
       Error ''Failed to get response from server. Please check if the backend is running.''"
  by (simp add: sendMessage_def fetch_def attempt_def normalize_def
      split: fetch_result.splits sum.splits prod.splits)

theorem sendMessage_contract_witness:
  "fst (sendMessage ''http://localhost:5050'' ''Hello'' (Some ''auto'') (answering (httpStatus 500))) =
     Inl (Error ''Failed to get response: HTTP error! status: 500'')
   \<and> fst (sendMessage ''http://localhost:5050'' ''Hello'' (Some ''auto'')
        (answering (Rejected (Error ''Failed to fetch'')))) =
     Inl (Error ''Failed to get response: Failed to fetch'')
   \<and> fst (sendMessage ''http://localhost:5050'' ''Hello'' (Some ''auto'')
        (answering (jsonBody 200 (exampleReply ''Rest and drink water'')))) =
     Inr \<lparr>reply = ''Rest and drink water'', resp_lang = ''en''\<rparr>
   \<and> sent (snd (sendMessage ''http://localhost:5050'' ''Hello'' (Some ''auto'')
        (answering (jsonBody 200 (exampleReply ''Rest and drink water''))))) =
     [\<lparr>url = ''http://localhost:5050/chat'', http_method = ''POST'',
       content_type = ''application/json'',
       body = \<lparr>query = ''Hello'', req_lang = ''auto''\<rparr>\<rparr>]"
  using sendMessage_contract[of "''http://localhost:5050''" "''Hello''" "Some ''auto''"
      "answering (httpStatus 500)" "''x''"]
    sendMessage_contract[of "''http://localhost:5050''" "''Hello''" "Some ''auto''"
      "answering (Rejected (Error ''Failed to fetch''))" "''x''"]
    sendMessage_contract[of "''http://localhost:5050''" "''Hello''" "Some ''auto''"
      "answering (jsonBody 200 (exampleReply ''Rest and drink water''))" "''x''"]
  by (simp add: client_eval exampleReply_def)

section \<open>A failed send (C3)\<close>




section \<open>The end of a recognition session (C7)\<close>

lemmas speech_eval = sessionEnd_def onend_def onend_timeout_def onresult_def trim_def
  isWhiteSpace_def backendLang_def langMap_def objectPrototype_def listening_def

text \<open>
  A session whose only final result has an empty transcript: the buffer then holds one
  space, it is not empty, and no send is issued at the end of the session.
\<close>

theorem session_end_counterexample:
  "finalTranscriptRef (onresult [([], True)] (listening ''en-US'' [])) = '' ''
   \<and> snd (sessionEnd (onresult [([], True)] (listening ''en-US'' []))) = []"
  by (simp add: speech_eval)

text \<open>
  C7, on the trimmed transcript and the tags the lookup leaves undefined.  When a
  recognition session ends and the accumulated final transcript is not empty once its white
  space is trimmed, one send is issued, with the trimmed transcript and the value of the
  lookup for the selected tag, and the buffer is empty afterwards; when the trimmed
  transcript is empty, no send is issued and the buffer is emptied.  The lookup gives \<open>en\<close>
  for \<open>en-US\<close>, \<open>hi\<close> for \<open>hi-IN\<close>, \<open>te\<close> for \<open>te-IN\<close>, and \<open>en\<close> for a tag that is neither in
  the table nor the name of a member of \<open>Object.prototype\<close>; for the name of such a member
  it gives the member.
\<close>

theorem session_end:
  "(trim (finalTranscriptRef st) \<noteq> [] \<longrightarrow>
      sessionEnd st =
        (st\<lparr>isListening := False, input := [], finalTranscriptRef := []\<rparr>,
         [(trim (finalTranscriptRef st), backendLang (selectedLanguage st))]))
   \<and> (trim (finalTranscriptRef st) = [] \<longrightarrow>
      sessionEnd st = (st\<lparr>isListening := False, finalTranscriptRef := []\<rparr>, []))
   \<and> backendLang ''en-US'' = Code ''en'' \<and> backendLang ''hi-IN'' = Code ''hi''
   \<and> backendLang ''te-IN'' = Code ''te''
   \<and> (tag \<notin> set (map fst langMap) \<and> tag \<notin> set objectPrototype \<longrightarrow>
        backendLang tag = Code ''en'')
   \<and> (tag \<in> set objectPrototype \<longrightarrow> backendLang tag = Member tag)"
  by (auto simp: sessionEnd_def onend_def onend_timeout_def Let_def backendLang_def langMap_def
      objectPrototype_def)

theorem session_end_witness:
  "finalTranscriptRef (listening ''hi-IN'' ''what are the symptoms of fever '') =
     ''what are the symptoms of fever ''
   \<and> sessionEnd (listening ''hi-IN'' ''what are the symptoms of fever '') =
     (\<lparr>input = [], isListening = False, selectedLanguage = ''hi-IN'', finalTranscriptRef = []\<rparr>,
      [(''what are the symptoms of fever'', Code ''hi'')])
   \<and> sessionEnd (listening ''hi-IN'' []) =
     (\<lparr>input = [], isListening = False, selectedLanguage = ''hi-IN'', finalTranscriptRef = []\<rparr>, [])
   \<and> backendLang ''fr-FR'' = Code ''en''
   \<and> backendLang ''constructor'' = Member ''constructor''"
  using session_end[of "listening ''hi-IN'' ''what are the symptoms of fever ''" "''fr-FR''"]
    session_end[of "listening ''hi-IN'' []" "''constructor''"]
  by (simp add: speech_eval)

section \<open>Sends without an active chat (C2)\<close>

text \<open>
  Two calls through handlers that have both captured "no active chat", as when the second
  goes through the handler the callback of \<open>setTimeout\<close> has kept from the first render:
  each creates a chat and appends to its own.
\<close>

theorem calls_without_active_chat_counterexample:
  "map chat_id (chats (fst (run
      [Send None (clock_at 5) ''a'' None, Send None (clock_at 9) ''b'' None]
      initial_system))) = [''9'', ''5'']
   \<and> map msg_text (chatMessages (fst (run
      [Send None (clock_at 5) ''a'' None, Send None (clock_at 9) ''b'' None]
      initial_system)) ''5'') = [''a'', []]
   \<and> map msg_text (chatMessages (fst (run
      [Send None (clock_at 5) ''a'' None, Send None (clock_at 9) ''b'' None]
      initial_system)) ''9'') = [''b'', []]"
  by (simp add: run_eval begin_eval chatMessages_def)

lemma latestHandlers_append:
  "latestHandlers (xs @ ys) sys = (latestHandlers xs sys \<and> latestHandlers ys (run xs sys))"
  by (induction xs arbitrary: sys) (simp_all add: run_def)

lemma updateChatSummary_ids:
  "map chat_id (updateChatSummary chatId txt date cs) = map chat_id cs"
  by (induction cs) (simp_all add: updateChatSummary_def)

lemma updateLastMessage_ids:
  "map chat_id (updateLastMessage chatId txt date cs) = map chat_id cs"
  by (induction cs) (simp_all add: updateLastMessage_def)

lemma updateLastMessage_titles:
  "map chat_title (updateLastMessage chatId txt date cs) = map chat_title cs"
  by (induction cs) (simp_all add: updateLastMessage_def)

lemma end_active: "activeChatId (handleSendMessage_end rc p outcome s) = activeChatId s"
  by (simp add: handleSendMessage_end_def Let_def split: sum.splits)

lemma end_chat_ids: "map chat_id (chats (handleSendMessage_end rc p outcome s)) = map chat_id (chats s)"
  by (simp add: handleSendMessage_end_def Let_def updateLastMessage_ids split: sum.splits)

lemma end_chat_titles:
  "map chat_title (chats (handleSendMessage_end rc p outcome s)) = map chat_title (chats s)"
  by (simp add: handleSendMessage_end_def Let_def updateLastMessage_titles split: sum.splits)

lemma end_message_ids:
  "map msg_id (chatMessages (handleSendMessage_end rc p outcome s) c) = map msg_id (chatMessages s c)"
proof -
  have "map (msg_id \<circ> (\<lambda>m. if msg_id m = p_loadingMessageId p
                               then resolvedMessage rc p outcome else m)) xs = map msg_id xs" for xs
    using resolved_id[of rc p outcome] by (induction xs) auto
  then show ?thesis
    by (simp add: end_messages chatMessages_def replaceMessage_def messages_or_empty_upd)
qed

lemma hd_title:
  "cs \<noteq> [] \<Longrightarrow> chat_title (hd cs) = hd (map chat_title cs)"
  by (cases cs) simp_all

lemma hd_id:
  "cs \<noteq> [] \<Longrightarrow> chat_id (hd cs) = hd (map chat_id cs)"
  by (cases cs) simp_all

lemma updateChatSummary_hd:
  "cs \<noteq> [] \<Longrightarrow> chat_id (hd cs) = chatId \<Longrightarrow>
     chat_title (hd (updateChatSummary chatId txt date cs)) = retitle (chat_title (hd cs)) txt"
  by (cases cs) (simp_all add: updateChatSummary_def retitle_def summary_title_def)

text \<open>Sends through the latest handler and settled calls, once a chat is active.\<close>

lemma calls_on_active_chat:
  assumes "activeChatId s = Some chatId" and "chatId \<noteq> []"
    and "chats s \<noteq> []" and "chat_id (hd (chats s)) = chatId"
    and "list_all sendOrSettle evs" and "latestHandlers evs (s, ps)"
  shows "activeChatId (fst (run evs (s, ps))) = Some chatId
         \<and> map chat_id (chats (fst (run evs (s, ps)))) = map chat_id (chats s)
         \<and> chat_title (hd (chats (fst (run evs (s, ps))))) =
             foldl retitle (chat_title (hd (chats s))) (concat (map callTexts evs))
         \<and> map msg_id (chatMessages (fst (run evs (s, ps))) chatId) =
             map msg_id (chatMessages s chatId) @ concat (map callIds evs)"
  using assms
proof (induction evs arbitrary: s ps)
  case Nil
  then show ?case by (simp add: run_def)
next
  case (Cons ev evs)
  show ?case
  proof (cases ev)
    case (Send a clk tx lang)
    obtain p s1 where b: "handleSendMessage_begin a clk tx lang s = (p, s1)"
      by (cases "handleSendMessage_begin a clk tx lang s")
    have a: "a = Some chatId" using Cons.prems Send by simp
    then have tr: "truthy a = Some chatId" using Cons.prems(2) by (simp add: truthy_def)
    then have t: "targetChat clk a = chatId" by (simp add: targetChat_def)
    have a1: "activeChatId s1 = Some chatId"
      using begin_active[OF b] tr Cons.prems(1) by simp
    have c1: "chats s1 = updateChatSummary chatId tx (date_summary clk) (chats s)"
      using begin_chats[OF b] t tr by (simp add: chatsWithTarget_def)
    have n1: "chats s1 \<noteq> []" using c1 Cons.prems(3) by (simp add: updateChatSummary_def)
    have i1: "map chat_id (chats s1) = map chat_id (chats s)"
      by (simp add: c1 updateChatSummary_ids)
    have h1: "chat_id (hd (chats s1)) = chatId"
      using Cons.prems(3,4) n1 i1 by (simp add: hd_id)
    have t1: "chat_title (hd (chats s1)) = retitle (chat_title (hd (chats s))) tx"
      using Cons.prems(3,4) by (simp add: c1 updateChatSummary_hd)
    have m1: "chatMessages s1 chatId =
        chatMessages s chatId @ [userMessage clk tx, loadingMessage clk]"
      using begin_messages[OF b] t tr
      by (simp add: chatMessages_def messages_or_empty_upd previousMessages_def)
    have st: "step ev (s, ps) = (s1, ps @ [p])" using b Send by simp
    have "list_all sendOrSettle evs" "latestHandlers evs (s1, ps @ [p])"
      using Cons.prems st by simp_all
    from Cons.IH[OF a1 Cons.prems(2) n1 h1 this]
    show ?thesis
      using i1 t1 m1 Send
      by (simp add: run_Cons b userMessage_def loadingMessage_def loadingMessageId_def)
  next
    case (Settle i rc outcome)
    show ?thesis
    proof (cases "i < length ps")
      case False
      then have st: "step ev (s, ps) = (s, ps)" using Settle by simp
      show ?thesis
        using Cons.IH[OF Cons.prems(1-4), of ps] Cons.prems(5,6) Settle False
        by (simp add: run_Cons)
    next
      case True
      let ?s = "handleSendMessage_end rc (ps ! i) outcome s"
      let ?ps = "take i ps @ drop (Suc i) ps"
      have st: "step ev (s, ps) = (?s, ?ps)" using Settle True by simp
      have a1: "activeChatId ?s = Some chatId" using Cons.prems(1) by (simp add: end_active)
      have i1: "map chat_id (chats ?s) = map chat_id (chats s)" by (rule end_chat_ids)
      have n1: "chats ?s \<noteq> []" using i1 Cons.prems(3) by (metis map_is_Nil_conv)
      have h1: "chat_id (hd (chats ?s)) = chatId"
        using Cons.prems(3,4) n1 i1 by (simp add: hd_id)
      have t1: "chat_title (hd (chats ?s)) = chat_title (hd (chats s))"
        using Cons.prems(3) n1 end_chat_titles[of rc "ps ! i" outcome s] by (simp add: hd_title)
      have "list_all sendOrSettle evs" "latestHandlers evs (?s, ?ps)"
        using Cons.prems st by simp_all
      from Cons.IH[OF a1 Cons.prems(2) n1 h1 this]
      show ?thesis
        using i1 t1 Settle True by (simp add: run_Cons end_message_ids)
    qed
  next
    case (NewChat now date)
    then show ?thesis using Cons.prems by simp
  next
    case (SelectChat c)
    then show ?thesis using Cons.prems by simp
  qed
qed

lemma send_on_active_chat:
  assumes "chatId \<noteq> []"
  shows "chatMessages (fst (step (Send (Some chatId) clk tx lang) (s, ps))) chatId =
           chatMessages s chatId @ [userMessage clk tx, loadingMessage clk]"
proof -
  obtain p s1 where b: "handleSendMessage_begin (Some chatId) clk tx lang s = (p, s1)"
    by (cases "handleSendMessage_begin (Some chatId) clk tx lang s")
  have tr: "truthy (Some chatId) = Some chatId" using assms by (simp add: truthy_def)
  then have t: "targetChat clk (Some chatId) = chatId" by (simp add: targetChat_def)
  show ?thesis
    using begin_messages[OF b] t tr b
    by (simp add: chatMessages_def messages_or_empty_upd previousMessages_def)
qed

lemma run_Nil: "run [] sys = sys"
  by (simp add: run_def)

text \<open>
  C2, for calls through the handler of the latest render.  Take a state with no active
  chat and a run that begins with a send and goes on with sends and settled backend calls in
  any order, every send through the handler of the latest render.  Then one chat is created:
  the ids of the chat collection are the old ones with the id of the new chat in front, the
  new chat is the active one, and its title is \<open>New Chat\<close> retitled by the texts of the
  sends in their order.  The first send seeds the sequence of the new chat with its user
  message and its loading message; every later send appends its user message, with its text,
  and its loading message at the end of the sequence as it is then; and the ids of the
  sequence are at every moment those of the sends in the order of the calls.
\<close>

theorem calls_without_active_chat:
  assumes none: "truthy (activeChatId s) = None"
    and evs: "list_all sendOrSettle evs"
    and latest: "latestHandlers (Send a clk txt lang # evs) (s, ps)"
  shows "activeChatId (fst (run (Send a clk txt lang # evs) (s, ps))) =
           Some (toString (now_chat clk))
         \<and> map chat_id (chats (fst (run (Send a clk txt lang # evs) (s, ps)))) =
             toString (now_chat clk) # map chat_id (chats s)
         \<and> chat_title (hd (chats (fst (run (Send a clk txt lang # evs) (s, ps))))) =
             foldl retitle ''New Chat'' (txt # concat (map callTexts evs))
         \<and> map msg_id (chatMessages (fst (run (Send a clk txt lang # evs) (s, ps)))
               (toString (now_chat clk))) =
             concat (map callIds (Send a clk txt lang # evs))
         \<and> chatMessages (fst (step (Send a clk txt lang) (s, ps))) (toString (now_chat clk)) =
             [\<lparr>msg_id = toString (now_user clk), msg_text = txt, msg_sender = User,
               msg_timestamp = date_user clk, msg_isLoading = None, msg_lang = None\<rparr>,
              \<lparr>msg_id = toString (now_loading clk + 1), msg_text = [], msg_sender = Bot,
               msg_timestamp = date_loading clk, msg_isLoading = Some True, msg_lang = None\<rparr>]
         \<and> (\<forall>evs1 a' clk' txt' lang' evs2.
               evs = evs1 @ Send a' clk' txt' lang' # evs2 \<longrightarrow>
               chatMessages
                 (fst (run (Send a clk txt lang # evs1 @ [Send a' clk' txt' lang']) (s, ps)))
                 (toString (now_chat clk)) =
               chatMessages (fst (run (Send a clk txt lang # evs1) (s, ps)))
                 (toString (now_chat clk))
               @ [\<lparr>msg_id = toString (now_user clk'), msg_text = txt', msg_sender = User,
                   msg_timestamp = date_user clk', msg_isLoading = None, msg_lang = None\<rparr>,
                  \<lparr>msg_id = toString (now_loading clk' + 1), msg_text = [],
                   msg_sender = Bot, msg_timestamp = date_loading clk',
                   msg_isLoading = Some True, msg_lang = None\<rparr>])"
proof -
  let ?c = "toString (now_chat clk)"
  obtain p s1 where b: "handleSendMessage_begin a clk txt lang s = (p, s1)"
    by (cases "handleSendMessage_begin a clk txt lang s")
  have st: "step (Send a clk txt lang) (s, ps) = (s1, ps @ [p])" using b by simp
  have a: "a = activeChatId s" using latest by simp
  then have tr: "truthy a = None" using none by simp
  then have t: "targetChat clk a = ?c" by (simp add: targetChat_def)
  have ne: "?c \<noteq> []" by (rule toString_nonempty)
  have a1: "activeChatId s1 = Some ?c" using begin_active[OF b] tr t by simp
  have c1: "chats s1 =
      updateChatSummary ?c txt (date_summary clk) (newChat (now_chat clk) (date_chat clk) # chats s)"
    using begin_chats[OF b] t tr by (simp add: chatsWithTarget_def)
  have n1: "chats s1 \<noteq> []" by (simp add: c1 updateChatSummary_def)
  have i1: "map chat_id (chats s1) = ?c # map chat_id (chats s)"
    by (simp add: c1 updateChatSummary_ids newChat_def)
  have h1: "chat_id (hd (chats s1)) = ?c" using n1 i1 by (simp add: hd_id)
  have t1: "chat_title (hd (chats s1)) = retitle ''New Chat'' txt"
    by (simp add: c1 updateChatSummary_hd newChat_def)
  have m1: "chatMessages s1 ?c = [userMessage clk txt, loadingMessage clk]"
    using begin_messages[OF b] t tr
    by (simp add: chatMessages_def messages_or_empty_upd previousMessages_def)
  from latest have "latestHandler (Send a clk txt lang) (s, ps)
      \<and> latestHandlers evs (step (Send a clk txt lang) (s, ps))"
    by (simp only: latestHandlers.simps)
  then have l1: "latestHandlers evs (s1, ps @ [p])" unfolding st by (rule conjunct2)
  note main = calls_on_active_chat[OF a1 ne n1 h1 evs l1]
  have appended: "chatMessages
                 (fst (run (Send a clk txt lang # evs1 @ [Send a' clk' txt' lang']) (s, ps))) ?c =
               chatMessages (fst (run (Send a clk txt lang # evs1) (s, ps))) ?c
               @ [userMessage clk' txt', loadingMessage clk']"
    if e: "evs = evs1 @ Send a' clk' txt' lang' # evs2" for evs1 a' clk' txt' lang' evs2
  proof -
    obtain s2 ps2 where r2: "run evs1 (s1, ps @ [p]) = (s2, ps2)"
      by (cases "run evs1 (s1, ps @ [p])")
    have e1: "list_all sendOrSettle evs1" using evs e by simp
    have l2: "latestHandlers evs1 (s1, ps @ [p])"
      and l3: "latestHandler (Send a' clk' txt' lang') (s2, ps2)"
      using l1 e r2 by (simp_all add: latestHandlers_append)
    have "activeChatId s2 = Some ?c"
      using calls_on_active_chat[OF a1 ne n1 h1 e1 l2] r2 by simp
    then have a': "a' = Some ?c" using l3 by simp
    have e1: "run (Send a clk txt lang # evs1) (s, ps) = (s2, ps2)"
      using r2 by (simp only: run_Cons st)
    have e2: "run (Send a clk txt lang # evs1 @ [Send a' clk' txt' lang']) (s, ps) =
        step (Send a' clk' txt' lang') (s2, ps2)"
      by (simp only: run_Cons st run_append r2 run_Nil)
    show ?thesis
      using send_on_active_chat[OF ne, of clk' txt' lang' s2 ps2]
      unfolding e1 e2 unfolding a' by simp
  qed
  show ?thesis
    using main i1 t1 m1 appended
    by (simp add: run_Cons b userMessage_def loadingMessage_def loadingMessageId_def)
qed

theorem calls_without_active_chat_witness:
  "truthy (activeChatId initial_state) = None
   \<and> latestHandlers
       [Send None (clock_at 5) ''Hello'' None, Settle 0 (resolve_at 7) (exampleReply ''Hi''),
        Send (Some ''5'') (clock_at 9) ''Fever?'' (Some ''en'')] initial_system
   \<and> map chat_id (chats (fst (run
       [Send None (clock_at 5) ''Hello'' None, Settle 0 (resolve_at 7) (exampleReply ''Hi''),
        Send (Some ''5'') (clock_at 9) ''Fever?'' (Some ''en'')] initial_system))) = [''5'']
   \<and> chat_title (hd (chats (fst (run
       [Send None (clock_at 5) ''Hello'' None, Settle 0 (resolve_at 7) (exampleReply ''Hi''),
        Send (Some ''5'') (clock_at 9) ''Fever?'' (Some ''en'')] initial_system)))) = ''Hello''
   \<and> map msg_text (chatMessages (fst (run
       [Send None (clock_at 5) ''Hello'' None, Settle 0 (resolve_at 7) (exampleReply ''Hi''),
        Send (Some ''5'') (clock_at 9) ''Fever?'' (Some ''en'')] initial_system)) ''5'') =
      [''Hello'', ''Hi'', ''Fever?'', []]"
  using calls_without_active_chat[of initial_state
      "[Settle 0 (resolve_at 7) (exampleReply ''Hi''),
        Send (Some ''5'') (clock_at 9) ''Fever?'' (Some ''en'')]"
      None "clock_at 5" "''Hello''" None "[]"]
  by (simp add: initial_system_def run_def begin_eval end_eval retitle_def)

end
